theory Spec2Isabelle
  imports Main "HOL-Library.Word"
begin

section \<open>The slicing-floorplan program A6.c\<close>

text \<open>
  The program reads a post-order description of a slicing tree from a text file, one
  token per line, builds the tree with an array used as a stack, computes the enclosing
  rectangle of every cut node, places every block, and writes three reports.

  Conventions of the embedding.
  \<^item> A C \<^verbatim>\<open>int\<close> is a 32-bit word. Addition wraps around (two's complement), which
    is what the compiled program does on the usual platforms (the C standard itself leaves
    the overflow of a signed addition open); comparisons read the word as signed.
  \<^item> A \<^verbatim>\<open>Node *\<close> is a \<open>Node option\<close>, \<open>None\<close> being \<^verbatim>\<open>NULL\<close>. The tree is
    singly owned (every node is allocated by \<^verbatim>\<open>createNode\<close> and linked under one
    parent), so a node holds its children by value and a function that writes fields
    returns the tree as it is after the call. Allocation is assumed to succeed.
  \<^item> The program has no error path of its own in \<^verbatim>\<open>buildTree\<close> and in the passes. The
    places where the source leaves the behaviour of the C program open (an index outside
    the stack array, a read of a variable \<^verbatim>\<open>sscanf\<close> did not assign, a dereferenced
    \<^verbatim>\<open>NULL\<close>, a converted number that does not fit an \<^verbatim>\<open>int\<close>) end the model
    with a value of type \<open>fault\<close>, so that none of them is hidden behind an unspecified
    HOL value.
  \<^item> A file is the string of its bytes.
\<close>

type_synonym cint = "32 word"

datatype fault = OutOfBounds | Uninitialised | NullDereference | Unrepresentable

text \<open>
  \<^verbatim>\<open>struct Node\<close>: the fields \<^verbatim>\<open>label, width, height, x, y, type, left, right\<close> in
  the order of the declaration (\<open>xpos\<close>, \<open>ypos\<close> and \<open>ntype\<close> stand for \<^verbatim>\<open>x\<close>,
  \<^verbatim>\<open>y\<close> and \<^verbatim>\<open>type\<close>).
\<close>

datatype Node =
  Node (label: cint) (width: cint) (height: cint) (xpos: cint) (ypos: cint)
       (ntype: char) (left: "Node option") (right: "Node option")

fun set_width :: "cint \<Rightarrow> Node \<Rightarrow> Node" where
  "set_width v (Node lb w h x y t l r) = Node lb v h x y t l r"

fun set_height :: "cint \<Rightarrow> Node \<Rightarrow> Node" where
  "set_height v (Node lb w h x y t l r) = Node lb w v x y t l r"

fun set_xpos :: "cint \<Rightarrow> Node \<Rightarrow> Node" where
  "set_xpos v (Node lb w h x y t l r) = Node lb w h v y t l r"

fun set_ypos :: "cint \<Rightarrow> Node \<Rightarrow> Node" where
  "set_ypos v (Node lb w h x y t l r) = Node lb w h x v t l r"

fun set_ntype :: "char \<Rightarrow> Node \<Rightarrow> Node" where
  "set_ntype v (Node lb w h x y t l r) = Node lb w h x y v l r"

fun set_left :: "Node option \<Rightarrow> Node \<Rightarrow> Node" where
  "set_left v (Node lb w h x y t l r) = Node lb w h x y t v r"

fun set_right :: "Node option \<Rightarrow> Node \<Rightarrow> Node" where
  "set_right v (Node lb w h x y t l r) = Node lb w h x y t l v"

abbreviation NUL :: char where "NUL \<equiv> CHR 0x00"
abbreviation NL :: char where "NL \<equiv> CHR 0x0A"

subsection \<open>Reading and writing text\<close>

text \<open>
  \<^verbatim>\<open>fgets(line, n, input)\<close> on the rest of the file: at most \<open>n - 1\<close> bytes, up to and
  including the first newline. The result is \<open>None\<close> (the C \<^verbatim>\<open>NULL\<close>) at the end of
  the file, and otherwise the bytes stored in the buffer and the rest of the file.
\<close>

fun read_line :: "nat \<Rightarrow> string \<Rightarrow> string \<times> string" where
  "read_line 0 s = ([], s)"
| "read_line (Suc k) [] = ([], [])"
| "read_line (Suc k) (c # cs) =
     (if c = NL then ([c], cs)
      else (case read_line k cs of (l, r) \<Rightarrow> (c # l, r)))"

definition fgets :: "nat \<Rightarrow> string \<Rightarrow> (string \<times> string) option" where
  "fgets n input = (if input = [] then None else Some (read_line (n - 1) input))"

definition isspace :: "char \<Rightarrow> bool" where
  "isspace c \<longleftrightarrow> c = CHR '' '' \<or> c = CHR 0x09 \<or> c = CHR 0x0A \<or> c = CHR 0x0B
     \<or> c = CHR 0x0C \<or> c = CHR 0x0D"

definition isdigit :: "char \<Rightarrow> bool" where
  "isdigit c \<longleftrightarrow> 48 \<le> (of_char c :: int) \<and> (of_char c :: int) \<le> 57"

definition digit_val :: "char \<Rightarrow> int" where
  "digit_val c = of_char c - 48"

definition digit_char :: "int \<Rightarrow> char" where
  "digit_char d = char_of (48 + d)"

fun scan_digits :: "int \<Rightarrow> string \<Rightarrow> int \<times> string" where
  "scan_digits acc [] = (acc, [])"
| "scan_digits acc (c # cs) =
     (if isdigit c then scan_digits (10 * acc + digit_val c) cs else (acc, c # cs))"

text \<open>
  The conversion \<^verbatim>\<open>%d\<close> of \<^verbatim>\<open>sscanf\<close>: white space is skipped, then an optional
  sign and at least one decimal digit are read. The result is the number read and the
  rest of the text, or \<open>None\<close> when the text does not match.
\<close>

definition scan_d :: "string \<Rightarrow> (int \<times> string) option" where
  "scan_d s =
     (case dropWhile isspace s of
        [] \<Rightarrow> None
      | c # cs \<Rightarrow>
          (let neg = (c = CHR ''-'');
               ds = (if c = CHR ''-'' \<or> c = CHR ''+'' then cs else c # cs)
           in case ds of
                [] \<Rightarrow> None
              | d # _ \<Rightarrow>
                  if isdigit d
                  then (case scan_digits 0 ds of
                          (n, rest) \<Rightarrow> Some (if neg then - n else n, rest))
                  else None))"

text \<open>The number is stored into an \<^verbatim>\<open>int\<close>; C leaves open what happens when it does not fit.\<close>

definition to_cint :: "int \<Rightarrow> fault + cint" where
  "to_cint v = (if - (2 ^ 31) \<le> v \<and> v < 2 ^ 31 then Inr (word_of_int v) else Inl Unrepresentable)"

text \<open>
  \<^verbatim>\<open>sscanf(line, "%d(%d,%d)", &label, &width, &height)\<close>. The three variables are
  not initialised before the call; each component of the result is \<open>Some\<close> of the value
  stored, or \<open>None\<close> when the scan stopped before that variable was assigned. The text
  after the last conversion is not looked at.
\<close>

definition sscanf_leaf :: "string \<Rightarrow> fault + (cint option \<times> cint option \<times> cint option)" where
  "sscanf_leaf s =
     (case scan_d s of
        None \<Rightarrow> Inr (None, None, None)
      | Some (a, s1) \<Rightarrow>
          (case to_cint a of
             Inl e \<Rightarrow> Inl e
           | Inr lb \<Rightarrow>
               (case s1 of
                  [] \<Rightarrow> Inr (Some lb, None, None)
                | c1 # s2 \<Rightarrow>
                    if c1 \<noteq> CHR ''(''
                    then Inr (Some lb, None, None)
                    else
                      (case scan_d s2 of
                         None \<Rightarrow> Inr (Some lb, None, None)
                       | Some (b, s3) \<Rightarrow>
                           (case to_cint b of
                              Inl e \<Rightarrow> Inl e
                            | Inr w \<Rightarrow>
                                (case s3 of
                                   [] \<Rightarrow> Inr (Some lb, Some w, None)
                                 | c2 # s4 \<Rightarrow>
                                     if c2 \<noteq> CHR '',''
                                     then Inr (Some lb, Some w, None)
                                     else
                                       (case scan_d s4 of
                                          None \<Rightarrow> Inr (Some lb, Some w, None)
                                        | Some (c, _) \<Rightarrow>
                                            (case to_cint c of
                                               Inl e \<Rightarrow> Inl e
                                             | Inr h \<Rightarrow> Inr (Some lb, Some w, Some h)))))))))"

text \<open>The conversion \<^verbatim>\<open>%d\<close> of \<^verbatim>\<open>fprintf\<close>.\<close>

function dec :: "int \<Rightarrow> string" where
  "dec n = (if n < 10 then [digit_char n] else dec (n div 10) @ [digit_char (n mod 10)])"
  by pat_completeness auto
termination
  by (relation "measure nat") auto

declare dec.simps [simp del]

definition show_int :: "int \<Rightarrow> string" where
  "show_int i = (if i < 0 then CHR ''-'' # dec (- i) else dec i)"

definition fmt_d :: "cint \<Rightarrow> string" where
  "fmt_d v = show_int (sint v)"

subsection \<open>Building the tree\<close>

definition createNode :: "cint \<Rightarrow> cint \<Rightarrow> cint \<Rightarrow> Node" where
  "createNode lb w h = Node lb w h 0 0 NUL None None"

text \<open>
  The stack of \<^verbatim>\<open>buildTree\<close> is the array \<^verbatim>\<open>Node *stack[1000]\<close> with the index
  \<^verbatim>\<open>stackTop\<close>, which starts at \<open>-1\<close>. The model keeps the entries
  \<^verbatim>\<open>stack[stackTop], ..., stack[0]\<close> as a list, the top first, so that
  \<^verbatim>\<open>stackTop\<close> is the length of the list minus one. \<open>pop\<close> is
  \<^verbatim>\<open>stack[stackTop--]\<close>, which reads \<^verbatim>\<open>stack[-1]\<close> when nothing is on the stack;
  \<open>push\<close> is \<^verbatim>\<open>stack[++stackTop] = node\<close>, which writes \<^verbatim>\<open>stack[1000]\<close> when
  the array is full.
\<close>

text \<open>
  The two sizes the source fixes: the 1000 entries of \<^verbatim>\<open>stack\<close> and the 20 bytes of
  \<^verbatim>\<open>line\<close> (\<^verbatim>\<open>sizeof(line)\<close> in the call of \<^verbatim>\<open>fgets\<close>).
\<close>

definition STACK_SIZE :: nat where
  "STACK_SIZE = 1000"

definition LINE_SIZE :: nat where
  "LINE_SIZE = 20"

fun pop :: "Node list \<Rightarrow> fault + (Node \<times> Node list)" where
  "pop [] = Inl OutOfBounds"
| "pop (n # stack) = Inr (n, stack)"

definition push :: "Node \<Rightarrow> Node list \<Rightarrow> fault + Node list" where
  "push n stack = (if length stack < STACK_SIZE then Inr (n # stack) else Inl OutOfBounds)"

text \<open>
  The body of the loop of \<^verbatim>\<open>buildTree\<close> for one line. The buffer holds the bytes
  read and a terminating zero byte, so \<^verbatim>\<open>line[0]\<close> is the first byte read and
  \<^verbatim>\<open>sscanf\<close> sees the bytes before the first zero byte.
\<close>

definition loop_body :: "string \<Rightarrow> Node list \<Rightarrow> fault + Node list" where
  "loop_body line stack =
     (let c0 = (case line of [] \<Rightarrow> NUL | c # _ \<Rightarrow> c) in
      if c0 = CHR ''H'' \<or> c0 = CHR ''V''
      then
        (let node = set_ntype c0 (createNode 0 0 0) in
         case pop stack of
           Inl e \<Rightarrow> Inl e
         | Inr (r, stack1) \<Rightarrow>
             (let node = set_right (Some r) node in
              case pop stack1 of
                Inl e \<Rightarrow> Inl e
              | Inr (l, stack2) \<Rightarrow>
                  (let node = set_left (Some l) node in
                   push node stack2)))
      else
        (case sscanf_leaf (takeWhile (\<lambda>c. c \<noteq> NUL) line) of
           Inl e \<Rightarrow> Inl e
         | Inr (Some lb, Some w, Some h) \<Rightarrow> push (createNode lb w h) stack
         | Inr _ \<Rightarrow> Inl Uninitialised))"

lemma read_line_shorter:
  "read_line k s = (l, r) \<Longrightarrow> length r \<le> length s"
  by (induction k s arbitrary: l r rule: read_line.induct) (auto split: if_splits prod.splits)

lemma fgets_shorter:
  "fgets LINE_SIZE input = Some (line, rest) \<Longrightarrow> length rest < length input"
  by (cases input) (auto simp: fgets_def LINE_SIZE_def numeral_eq_Suc
      split: if_splits prod.splits dest: read_line_shorter)

function buildLoop :: "string \<Rightarrow> Node list \<Rightarrow> fault + Node" where
  "buildLoop input stack =
     (case fgets LINE_SIZE input of
        None \<Rightarrow> (case stack of [] \<Rightarrow> Inl OutOfBounds | n # _ \<Rightarrow> Inr n)
      | Some (line, rest) \<Rightarrow>
          (case loop_body line stack of
             Inl e \<Rightarrow> Inl e
           | Inr stack' \<Rightarrow> buildLoop rest stack'))"
  by pat_completeness auto
termination
  by (relation "measure (\<lambda>(input, stack). length input)") (auto dest: fgets_shorter)

declare buildLoop.simps [simp del]

definition buildTree :: "string \<Rightarrow> fault + Node" where
  "buildTree input = buildLoop input []"

subsection \<open>The dimension pass and the coordinate pass\<close>

lemma size_left [termination_simp]: "size_option size (left root) < Suc (size root)"
  by (cases root) simp

lemma size_right [termination_simp]: "size_option size (right root) < Suc (size root)"
  by (cases root) simp

lemma size_left_Some: "left root = Some a \<Longrightarrow> size a < size root"
  by (cases root) simp

lemma size_right_Some: "right root = Some b \<Longrightarrow> size b < size root"
  by (cases root) simp

text \<open>
  \<^verbatim>\<open>computeDimensions(root)\<close>. Both children are visited first; then the width
  and the height of a node of type \<^verbatim>\<open>'H'\<close> or \<^verbatim>\<open>'V'\<close> are written from the
  fields of the children, which the source reads through \<^verbatim>\<open>root->left\<close> and
  \<^verbatim>\<open>root->right\<close> without a test for \<^verbatim>\<open>NULL\<close>.
\<close>

function computeDimensions :: "Node option \<Rightarrow> fault + Node option" where
  "computeDimensions None = Inr None"
| "computeDimensions (Some root) =
     (if ntype root = NUL then Inr (Some root)
      else
        (case computeDimensions (left root) of
           Inl e \<Rightarrow> Inl e
         | Inr l \<Rightarrow>
             (case computeDimensions (right root) of
                Inl e \<Rightarrow> Inl e
              | Inr r \<Rightarrow>
                  (let root = set_right r (set_left l root) in
                   if ntype root = CHR ''H'' then
                     (case (l, r) of
                        (Some a, Some b) \<Rightarrow>
                          Inr (Some (set_height (height a + height b)
                            (set_width (if width b <s width a then width a else width b) root)))
                      | _ \<Rightarrow> Inl NullDereference)
                   else if ntype root = CHR ''V'' then
                     (case (l, r) of
                        (Some a, Some b) \<Rightarrow>
                          Inr (Some (set_height (if height b <s height a then height a else height b)
                            (set_width (width a + width b) root)))
                      | _ \<Rightarrow> Inl NullDereference)
                   else Inr (Some root)))))"
  by pat_completeness auto
termination
  by (relation "measure (size_option size)") (auto simp: size_left size_right)

text \<open>
  \<^verbatim>\<open>computeCoordinates(root, x, y)\<close>. For \<^verbatim>\<open>'H'\<close> the argument
  \<^verbatim>\<open>y + root->right->height\<close> is evaluated before the first call; for \<^verbatim>\<open>'V'\<close>
  the argument \<^verbatim>\<open>x + root->left->width\<close> is evaluated after the call on the left child.
\<close>

function computeCoordinates :: "Node option \<Rightarrow> cint \<Rightarrow> cint \<Rightarrow> fault + Node option" where
  "computeCoordinates None x y = Inr None"
| "computeCoordinates (Some root) x y =
     (if ntype root = NUL then Inr (Some (set_ypos y (set_xpos x root)))
      else if ntype root = CHR ''H'' then
        (case right root of
           None \<Rightarrow> Inl NullDereference
         | Some b \<Rightarrow>
             (case computeCoordinates (left root) x (y + height b) of
                Inl e \<Rightarrow> Inl e
              | Inr l \<Rightarrow>
                  (case computeCoordinates (right root) x y of
                     Inl e \<Rightarrow> Inl e
                   | Inr r \<Rightarrow> Inr (Some (set_right r (set_left l root))))))
      else if ntype root = CHR ''V'' then
        (case computeCoordinates (left root) x y of
           Inl e \<Rightarrow> Inl e
         | Inr l \<Rightarrow>
             (case l of
                None \<Rightarrow> Inl NullDereference
              | Some a \<Rightarrow>
                  (case computeCoordinates (right root) (x + width a) y of
                     Inl e \<Rightarrow> Inl e
                   | Inr r \<Rightarrow> Inr (Some (set_right r (set_left l root))))))
      else Inr (Some root))"
  by pat_completeness auto
termination
  by (relation "measure (\<lambda>(root, x, y). size_option size root)")
    (auto simp: size_left size_right size_left_Some size_right_Some)

subsection \<open>The three reports\<close>

text \<open>
  Each report takes the tree and the text written to its file so far, and returns the
  tree as it is after the call and the text of the file after the call.
\<close>

definition leaf_line :: "Node \<Rightarrow> string" where
  "leaf_line root =
     fmt_d (label root) @ ''('' @ fmt_d (width root) @ '','' @ fmt_d (height root) @ '')'' @ [NL]"

definition cut_line :: "Node \<Rightarrow> string" where
  "cut_line root =
     [ntype root] @ ''('' @ fmt_d (width root) @ '','' @ fmt_d (height root) @ '')'' @ [NL]"

definition coord_line :: "Node \<Rightarrow> string" where
  "coord_line root =
     fmt_d (label root) @ ''(('' @ fmt_d (width root) @ '','' @ fmt_d (height root) @ '')(''
       @ fmt_d (xpos root) @ '','' @ fmt_d (ypos root) @ ''))'' @ [NL]"

function preorderTraversal :: "Node option \<Rightarrow> string \<Rightarrow> Node option \<times> string" where
  "preorderTraversal None out = (None, out)"
| "preorderTraversal (Some root) out =
     (let out1 = out @ (if ntype root = NUL then leaf_line root else [ntype root, NL]) in
      case preorderTraversal (left root) out1 of
        (l, out2) \<Rightarrow>
          (case preorderTraversal (right root) out2 of
             (r, out3) \<Rightarrow> (Some (set_right r (set_left l root)), out3)))"
  by pat_completeness auto
termination
  by (relation "measure (\<lambda>(root, out). size_option size root)") (auto simp: size_left size_right)

function writeDimensions :: "Node option \<Rightarrow> string \<Rightarrow> Node option \<times> string" where
  "writeDimensions None out = (None, out)"
| "writeDimensions (Some root) out =
     (case writeDimensions (left root) out of
        (l, out1) \<Rightarrow>
          (case writeDimensions (right root) out1 of
             (r, out2) \<Rightarrow>
               (let root = set_right r (set_left l root) in
                (Some root,
                 out2 @ (if ntype root = NUL then leaf_line root else cut_line root)))))"
  by pat_completeness auto
termination
  by (relation "measure (\<lambda>(root, out). size_option size root)") (auto simp: size_left size_right)

function writeCoordinates :: "Node option \<Rightarrow> string \<Rightarrow> Node option \<times> string" where
  "writeCoordinates None out = (None, out)"
| "writeCoordinates (Some root) out =
     (let out1 = out @ (if ntype root = NUL then coord_line root else []) in
      case writeCoordinates (left root) out1 of
        (l, out2) \<Rightarrow>
          (case writeCoordinates (right root) out2 of
             (r, out3) \<Rightarrow> (Some (set_right r (set_left l root)), out3)))"
  by pat_completeness auto
termination
  by (relation "measure (\<lambda>(root, out). size_option size root)") (auto simp: size_left size_right)

subsection \<open>The pipeline of main\<close>

text \<open>
  \<^verbatim>\<open>main\<close> after the files are open: the input file's text goes in, the texts of the
  three output files come out.
\<close>

definition main_reports :: "string \<Rightarrow> fault + (string \<times> string \<times> string)" where
  "main_reports input =
     (case buildTree input of
        Inl e \<Rightarrow> Inl e
      | Inr root0 \<Rightarrow>
          (case preorderTraversal (Some root0) [] of
             (root1, out1) \<Rightarrow>
               (case computeDimensions root1 of
                  Inl e \<Rightarrow> Inl e
                | Inr root2 \<Rightarrow>
                    (case writeDimensions root2 [] of
                       (root3, out2) \<Rightarrow>
                         (case computeCoordinates root3 0 0 of
                            Inl e \<Rightarrow> Inl e
                          | Inr root4 \<Rightarrow>
                              (case writeCoordinates root4 [] of
                                 (root5, out3) \<Rightarrow> Inr (out1, out2, out3)))))))"

section \<open>Properties\<close>

subsection \<open>Trees as the builder makes them\<close>

text \<open>
  A node as \<^verbatim>\<open>buildTree\<close> links it: a leaf has type zero and no child, a cut has
  type \<^verbatim>\<open>'H'\<close> or \<^verbatim>\<open>'V'\<close> and two children.
\<close>

fun well_formed :: "Node \<Rightarrow> bool" where
  "well_formed (Node lb w h x y t l r) =
     (if t = NUL then l = None \<and> r = None
      else (t = CHR ''H'' \<or> t = CHR ''V'')
        \<and> (case l of None \<Rightarrow> False | Some a \<Rightarrow> well_formed a)
        \<and> (case r of None \<Rightarrow> False | Some b \<Rightarrow> well_formed b))"

text \<open>
  The larger of two \<^verbatim>\<open>int\<close> values, as the source computes it:
  \<^verbatim>\<open>(a > b) ? a : b\<close>.
\<close>

definition smax :: "cint \<Rightarrow> cint \<Rightarrow> cint" where
  "smax a b = (if b <s a then a else b)"

text \<open>
  The leaf nodes of a tree, from left to right, and the label, width and height a leaf
  was given in the input.
\<close>

fun leaves :: "Node \<Rightarrow> Node list" where
  "leaves (Node lb w h x y t l r) =
     (if t = NUL then [Node lb w h x y t l r]
      else (case l of None \<Rightarrow> [] | Some a \<Rightarrow> leaves a)
         @ (case r of None \<Rightarrow> [] | Some b \<Rightarrow> leaves b))"

definition intrinsic :: "Node \<Rightarrow> cint \<times> cint \<times> cint" where
  "intrinsic n = (label n, width n, height n)"

lemma well_formed_induct [consumes 1, case_names Leaf Cut]:
  assumes "well_formed t"
    and "\<And>lb w h x y. P (Node lb w h x y NUL None None)"
    and "\<And>lb w h x y c a b. c = CHR ''H'' \<or> c = CHR ''V'' \<Longrightarrow> well_formed a \<Longrightarrow> well_formed b
           \<Longrightarrow> P a \<Longrightarrow> P b \<Longrightarrow> P (Node lb w h x y c (Some a) (Some b))"
  shows "P t"
  using assms(1)
proof (induction t)
  case (Node lb w h x y c l r)
  show ?case
  proof (cases "c = NUL")
    case True
    with Node.prems show ?thesis by (simp add: assms(2))
  next
    case False
    with Node.prems obtain a b where lr: "l = Some a" "r = Some b"
      and w: "well_formed a" "well_formed b"
      and c: "c = CHR ''H'' \<or> c = CHR ''V''"
      by (auto split: option.splits)
    have "P a" "P b" using Node.IH lr w by auto
    with lr w c show ?thesis by (auto intro: assms(3))
  qed
qed

lemma computeDimensions_Cut:
  assumes "c = CHR ''H'' \<or> c = CHR ''V''"
    and "computeDimensions (Some a) = Inr (Some a')"
    and "computeDimensions (Some b) = Inr (Some b')"
  shows "computeDimensions (Some (Node lb w h x y c (Some a) (Some b))) =
     Inr (Some (Node lb
       (if c = CHR ''H'' then smax (width a') (width b') else width a' + width b')
       (if c = CHR ''H'' then height a' + height b' else smax (height a') (height b'))
       x y c (Some a') (Some b')))"
  using assms by (auto simp: smax_def)

lemma computeDimensions_well_formed:
  "well_formed t \<Longrightarrow>
     \<exists>t'. computeDimensions (Some t) = Inr (Some t') \<and> well_formed t'
       \<and> leaves t' = leaves t \<and> ntype t' = ntype t"
proof (induction t rule: well_formed_induct)
  case (Leaf lb w h x y)
  show ?case by simp
next
  case (Cut lb w h x y c a b)
  then obtain a' b' where a: "computeDimensions (Some a) = Inr (Some a')" "well_formed a'"
      "leaves a' = leaves a"
    and b: "computeDimensions (Some b) = Inr (Some b')" "well_formed b'"
      "leaves b' = leaves b"
    by blast
  show ?case
    using Cut.hyps(1) a b
    by (simp only: computeDimensions_Cut [OF Cut.hyps(1) a(1) b(1)]) auto
qed

text \<open>The text of a file whose lines are \<open>ls\<close>, each ended by a newline.\<close>

definition unlines :: "string list \<Rightarrow> string" where
  "unlines ls = concat (map (\<lambda>l. l @ [NL]) ls)"

lemma loop_body_well_formed:
  "list_all well_formed st \<Longrightarrow> loop_body line st = Inr st' \<Longrightarrow> list_all well_formed st'"
  unfolding loop_body_def Let_def
  by (cases st; cases "tl st")
     (auto simp: createNode_def push_def split: if_splits sum.splits option.splits prod.splits)

lemma buildLoop_well_formed:
  "list_all well_formed st \<Longrightarrow> buildLoop input st = Inr t \<Longrightarrow> well_formed t"
proof (induction input st rule: buildLoop.induct)
  case (1 input stack)
  show ?case
  proof (cases "fgets LINE_SIZE input")
    case None
    with "1.prems" show ?thesis
      by (subst (asm) buildLoop.simps) (auto split: list.splits)
  next
    case (Some p)
    obtain line rest where p: "p = (line, rest)" by (cases p)
    from "1.prems"(2) Some p obtain st' where b: "loop_body line stack = Inr st'"
      and r: "buildLoop rest st' = Inr t"
      by (subst (asm) buildLoop.simps) (auto split: sum.splits)
    from loop_body_well_formed [OF "1.prems"(1) b] have "list_all well_formed st'" .
    with "1.IH" Some p b r show ?thesis by auto
  qed
qed

lemma buildTree_well_formed: "buildTree input = Inr t \<Longrightarrow> well_formed t"
  unfolding buildTree_def by (rule buildLoop_well_formed) auto

lemma example_tree:
  "buildTree (unlines [''1(2,3)'', ''2(4,5)'', ''H'']) =
     Inr (Node 0 0 0 0 0 (CHR ''H'') (Some (Node 1 2 3 0 0 NUL None None))
            (Some (Node 2 4 5 0 0 NUL None None)))"
  by code_simp

subsection \<open>The coordinate pass\<close>

lemma computeCoordinates_Cut_H:
  assumes "computeCoordinates (Some a) x (y + height b) = Inr (Some a')"
    and "computeCoordinates (Some b) x y = Inr (Some b')"
  shows "computeCoordinates (Some (Node lb w h nx ny (CHR ''H'') (Some a) (Some b))) x y =
     Inr (Some (Node lb w h nx ny (CHR ''H'') (Some a') (Some b')))"
  using assms by simp

lemma computeCoordinates_Cut_V:
  assumes "computeCoordinates (Some a) x y = Inr (Some a')"
    and "computeCoordinates (Some b) (x + width a') y = Inr (Some b')"
  shows "computeCoordinates (Some (Node lb w h nx ny (CHR ''V'') (Some a) (Some b))) x y =
     Inr (Some (Node lb w h nx ny (CHR ''V'') (Some a') (Some b')))"
  using assms by simp

lemma example_dimensions:
  "computeDimensions (Some (Node 0 0 0 0 0 (CHR ''H'') (Some (Node 1 2 3 0 0 NUL None None))
            (Some (Node 2 4 5 0 0 NUL None None)))) = 
   Inr (Some (Node 0 4 8 0 0 (CHR ''H'') (Some (Node 1 2 3 0 0 NUL None None))
            (Some (Node 2 4 5 0 0 NUL None None))))"
  by code_simp

subsection \<open>The reports\<close>

lemma preorderTraversal_tree: "fst (preorderTraversal t out) = t"
proof (induction t out rule: preorderTraversal.induct)
  case (1 out)
  show ?case by simp
next
  case (2 root out)
  then show ?case
    by (cases root) (auto split: prod.splits simp: Let_def)
qed

lemma writeDimensions_tree: "fst (writeDimensions t out) = t"
proof (induction t out rule: writeDimensions.induct)
  case (1 out)
  show ?case by simp
next
  case (2 root out)
  then show ?case
    by (cases root) (auto split: prod.splits simp: Let_def)
qed

lemma writeCoordinates_tree: "fst (writeCoordinates t out) = t"
proof (induction t out rule: writeCoordinates.induct)
  case (1 out)
  show ?case by simp
next
  case (2 root out)
  then show ?case
    by (cases root) (auto split: prod.splits simp: Let_def)
qed

text \<open>
  Claim C9. Each of the three reports (the pre-order structure report, the post-order
  dimension report and the pre-order coordinate report of the leaves) leaves the tree it
  is run on as it was: the tree after the call is the tree before the call, whatever has
  been written to the file so far.
\<close>

theorem reports_leave_tree_unchanged:
  "fst (preorderTraversal root out1) = root
   \<and> fst (writeDimensions root out2) = root
   \<and> fst (writeCoordinates root out3) = root"
  by (simp add: preorderTraversal_tree writeDimensions_tree writeCoordinates_tree)

text \<open>
  Claim C8. For the input lines \<^verbatim>\<open>1(2,3)\<close>, \<^verbatim>\<open>2(4,5)\<close>, \<^verbatim>\<open>H\<close> the
  pipeline writes the dimension report \<^verbatim>\<open>1(2,3)\<close>, \<^verbatim>\<open>2(4,5)\<close>,
  \<^verbatim>\<open>H(4,8)\<close> and the coordinate report \<^verbatim>\<open>1((2,3)(0,5))\<close>,
  \<^verbatim>\<open>2((4,5)(0,0))\<close>, in that order (and the structure report \<^verbatim>\<open>H\<close>,
  \<^verbatim>\<open>1(2,3)\<close>, \<^verbatim>\<open>2(4,5)\<close>).
\<close>

theorem example_reports:
  "main_reports (unlines [''1(2,3)'', ''2(4,5)'', ''H'']) =
     Inr (unlines [''H'', ''1(2,3)'', ''2(4,5)''],
          unlines [''1(2,3)'', ''2(4,5)'', ''H(4,8)''],
          unlines [''1((2,3)(0,5))'', ''2((4,5)(0,0))''])"
  by code_simp

subsection \<open>Tokens and the post-order encoding\<close>

text \<open>
  The tokens of the specification: a leaf descriptor \<^verbatim>\<open>label(width,height)\<close> or an
  operator character. \<open>render\<close> is the line of a token in the input file and
  \<open>encode\<close> the text of the file for a sequence of tokens, one per line. A token is
  valid when its three integers are positive, or when it is \<^verbatim>\<open>H\<close> or \<^verbatim>\<open>V\<close>.
\<close>

datatype token = LeafTok cint cint cint | OpTok char

fun render :: "token \<Rightarrow> string" where
  "render (LeafTok lb w h) = fmt_d lb @ ''('' @ fmt_d w @ '','' @ fmt_d h @ '')''"
| "render (OpTok c) = [c]"

definition encode :: "token list \<Rightarrow> string" where
  "encode ts = unlines (map render ts)"

fun valid_token :: "token \<Rightarrow> bool" where
  "valid_token (LeafTok lb w h) \<longleftrightarrow> 0 <s lb \<and> 0 <s w \<and> 0 <s h"
| "valid_token (OpTok c) \<longleftrightarrow> c = CHR ''H'' \<or> c = CHR ''V''"

text \<open>
  The post-order traversal of the specification: a leaf gives its descriptor, a cut gives
  the tokens of its left subtree, those of its right subtree and then its operator.
\<close>

fun postorder :: "Node \<Rightarrow> token list" where
  "postorder (Node lb w h x y t l r) =
     (if t = NUL then [LeafTok lb w h]
      else (case l of None \<Rightarrow> [] | Some a \<Rightarrow> postorder a)
         @ (case r of None \<Rightarrow> [] | Some b \<Rightarrow> postorder b)
         @ [OpTok t])"

text \<open>
  A tree as the builder leaves it: every coordinate is zero, and a cut has the label, the
  width and the height zero that \<^verbatim>\<open>createNode(0, 0, 0)\<close> gave it.
\<close>

fun fresh :: "Node \<Rightarrow> bool" where
  "fresh (Node lb w h x y t l r) =
     (x = 0 \<and> y = 0
      \<and> (if t = NUL then l = None \<and> r = None
         else lb = 0 \<and> w = 0 \<and> h = 0 \<and> (t = CHR ''H'' \<or> t = CHR ''V'')
           \<and> (case l of None \<Rightarrow> False | Some a \<Rightarrow> fresh a)
           \<and> (case r of None \<Rightarrow> False | Some b \<Rightarrow> fresh b)))"

text \<open>
  The line of a token fits the buffer \<^verbatim>\<open>char line[20]\<close> when the line and its newline
  are at most 19 bytes, which is what one call of \<^verbatim>\<open>fgets\<close> reads.
\<close>

definition fits_buffer :: "token \<Rightarrow> bool" where
  "fits_buffer k \<longleftrightarrow> length (render k) + 1 < LINE_SIZE"

text \<open>
  The largest number of subtrees that are on the stack at one time while the post-order
  encoding of a tree is processed.
\<close>

fun stack_need :: "Node \<Rightarrow> nat" where
  "stack_need (Node lb w h x y t l r) =
     (if t = NUL then 1
      else max (case l of None \<Rightarrow> 0 | Some a \<Rightarrow> stack_need a)
               (1 + (case r of None \<Rightarrow> 0 | Some b \<Rightarrow> stack_need b)))"

text \<open>
  The tree with \<open>n + 1\<close> leaves \<^verbatim>\<open>1(1,1)\<close> and \<open>n\<close> horizontal cuts, each cut
  with a leaf as its left child: its encoding is \<open>n + 1\<close> leaf lines followed by \<open>n\<close>
  lines \<^verbatim>\<open>H\<close>.
\<close>

fun right_comb :: "nat \<Rightarrow> Node" where
  "right_comb 0 = Node 1 1 1 0 0 NUL None None"
| "right_comb (Suc n) =
     Node 0 0 0 0 0 (CHR ''H'') (Some (Node 1 1 1 0 0 NUL None None)) (Some (right_comb n))"

subsection \<open>Printing and scanning numbers\<close>

lemma digit_val_digit_char: "0 \<le> d \<Longrightarrow> d < 10 \<Longrightarrow> digit_val (digit_char d) = d"
  by (simp add: digit_val_def digit_char_def)

lemma isdigit_digit_char: "0 \<le> d \<Longrightarrow> d < 10 \<Longrightarrow> isdigit (digit_char d)"
  by (simp add: isdigit_def digit_char_def)

lemma dec_digits: "0 \<le> n \<Longrightarrow> list_all isdigit (dec n) \<and> dec n \<noteq> []"
proof (induction n rule: dec.induct)
  case (1 n)
  show ?case
  proof (cases "n < 10")
    case True
    with "1.prems" show ?thesis by (subst dec.simps, subst dec.simps) (simp add: isdigit_digit_char)
  next
    case False
    with "1.prems" have "list_all isdigit (dec (n div 10))" using "1.IH" by simp
    moreover have "isdigit (digit_char (n mod 10))" by (rule isdigit_digit_char) simp_all
    ultimately show ?thesis using False by (subst dec.simps, subst dec.simps) simp
  qed
qed

lemma scan_digits_append:
  "list_all isdigit ds \<Longrightarrow> (case rest of [] \<Rightarrow> True | c # _ \<Rightarrow> \<not> isdigit c) \<Longrightarrow>
     scan_digits acc (ds @ rest) = (foldl (\<lambda>a c. 10 * a + digit_val c) acc ds, rest)"
  by (induction ds arbitrary: acc) (auto split: list.splits)

lemma foldl_dec: "0 \<le> n \<Longrightarrow> foldl (\<lambda>a c. 10 * a + digit_val c) 0 (dec n) = n"
proof (induction n rule: dec.induct)
  case (1 n)
  show ?case
  proof (cases "n < 10")
    case True
    with "1.prems" show ?thesis by (subst dec.simps) (simp add: digit_val_digit_char)
  next
    case False
    with "1.prems" "1.IH" have "foldl (\<lambda>a c. 10 * a + digit_val c) 0 (dec (n div 10)) = n div 10"
      by simp
    moreover have "digit_val (digit_char (n mod 10)) = n mod 10"
      by (rule digit_val_digit_char) simp_all
    ultimately show ?thesis using False by (subst dec.simps) simp
  qed
qed

lemma scan_digits_dec:
  "0 \<le> n \<Longrightarrow> (case rest of [] \<Rightarrow> True | c # _ \<Rightarrow> \<not> isdigit c) \<Longrightarrow>
     scan_digits 0 (dec n @ rest) = (n, rest)"
  by (simp add: scan_digits_append dec_digits foldl_dec)

lemma isdigit_not_space: "isdigit c \<Longrightarrow> \<not> isspace c \<and> c \<noteq> CHR ''-'' \<and> c \<noteq> CHR ''+'' \<and> c \<noteq> NUL \<and> c \<noteq> NL"
  by (auto simp: isdigit_def isspace_def)

lemma scan_d_show_int:
  assumes "case rest of [] \<Rightarrow> True | c # _ \<Rightarrow> \<not> isdigit c"
  shows "scan_d (show_int v @ rest) = Some (v, rest)"
proof (cases "v < 0")
  case True
  then have n: "0 \<le> - v" by simp
  from dec_digits [OF n] obtain d ds where d: "dec (- v) = d # ds" "isdigit d"
    by (cases "dec (- v)") auto
  have "scan_digits 0 (d # ds @ rest) = (- v, rest)"
    using scan_digits_dec [OF n assms] d by simp
  then show ?thesis
    using True d unfolding scan_d_def show_int_def
    by (simp add: isspace_def del: scan_digits.simps)
next
  case False
  then have n: "0 \<le> v" by simp
  from dec_digits [OF n] obtain d ds where d: "dec v = d # ds" "isdigit d"
    by (cases "dec v") auto
  have "scan_digits 0 (d # ds @ rest) = (v, rest)"
    using scan_digits_dec [OF n assms] d by simp
  then show ?thesis
    using False d isdigit_not_space [OF d(2)] unfolding scan_d_def show_int_def
    by (simp del: scan_digits.simps)
qed

lemma to_cint_sint: "to_cint (sint (w :: cint)) = Inr w"
proof -
  have "- (2 ^ 31) \<le> sint w" using sint_ge [of w] by simp
  moreover have "sint w < 2 ^ 31" using sint_lt [of w] by simp
  ultimately show ?thesis by (simp add: to_cint_def)
qed

lemma isdigit_punct [simp]:
  "\<not> isdigit (CHR ''('')" "\<not> isdigit (CHR '','')" "\<not> isdigit (CHR '')'')"
  by (simp_all add: isdigit_def)

lemma sscanf_leaf_render:
  "sscanf_leaf (render (LeafTok lb w h) @ junk) = Inr (Some lb, Some w, Some h)"
proof -
  have 1: "scan_d (show_int (sint lb) @ CHR ''('' # show_int (sint w) @ CHR '','' # show_int (sint h) @ CHR '')'' # junk)
           = Some (sint lb, CHR ''('' # show_int (sint w) @ CHR '','' # show_int (sint h) @ CHR '')'' # junk)"
    by (rule scan_d_show_int) simp
  have 2: "scan_d (show_int (sint w) @ CHR '','' # show_int (sint h) @ CHR '')'' # junk)
           = Some (sint w, CHR '','' # show_int (sint h) @ CHR '')'' # junk)"
    by (rule scan_d_show_int) simp
  have 3: "scan_d (show_int (sint h) @ CHR '')'' # junk) = Some (sint h, CHR '')'' # junk)"
    by (rule scan_d_show_int) simp
  show ?thesis
    by (simp add: sscanf_leaf_def fmt_d_def 1 2 3 to_cint_sint)
qed

subsection \<open>The builder on the encoding of a tree\<close>

lemma dec_chars: "0 \<le> n \<Longrightarrow> c \<in> set (dec n) \<Longrightarrow> isdigit c"
  using dec_digits [of n] by (simp add: list_all_iff)

lemma show_int_chars: "c \<in> set (show_int v) \<Longrightarrow> isdigit c \<or> c = CHR ''-''"
  by (cases "v < 0") (auto simp: show_int_def dest: dec_chars [rotated])

lemma show_int_hd: "\<exists>c cs. show_int v = c # cs \<and> (isdigit c \<or> c = CHR ''-'')"
proof (cases "v < 0")
  case True
  then show ?thesis by (simp add: show_int_def)
next
  case False
  then have "0 \<le> v" by simp
  from dec_digits [OF this] show ?thesis
    using False by (cases "dec v") (auto simp: show_int_def)
qed

lemma render_leaf_chars:
  "c \<in> set (render (LeafTok lb w h)) \<Longrightarrow> c \<noteq> NUL \<and> c \<noteq> NL"
  by (auto simp: fmt_d_def dest!: show_int_chars dest: isdigit_not_space)

lemma render_leaf_hd:
  "\<exists>c cs. render (LeafTok lb w h) = c # cs \<and> c \<noteq> CHR ''H'' \<and> c \<noteq> CHR ''V''"
proof -
  obtain c cs where c: "show_int (sint lb) = c # cs" "isdigit c \<or> c = CHR ''-''"
    using show_int_hd by blast
  then have "c \<noteq> CHR ''H'' \<and> c \<noteq> CHR ''V''" by (auto simp: isdigit_def)
  with c show ?thesis by (simp add: fmt_d_def)
qed

lemma read_line_line:
  "NL \<notin> set line \<Longrightarrow> length line < k \<Longrightarrow> read_line k (line @ NL # rest) = (line @ [NL], rest)"
proof (induction line arbitrary: k)
  case Nil
  then show ?case by (cases k) simp_all
next
  case (Cons c line)
  then show ?case by (cases k) auto
qed

lemma fgets_line:
  "NL \<notin> set line \<Longrightarrow> length line + 1 < LINE_SIZE \<Longrightarrow>
     fgets LINE_SIZE (line @ NL # rest) = Some (line @ [NL], rest)"
  by (simp add: fgets_def read_line_line)

lemma buildLoop_line:
  "NL \<notin> set line \<Longrightarrow> length line + 1 < LINE_SIZE \<Longrightarrow>
     buildLoop (line @ NL # rest) st =
       (case loop_body (line @ [NL]) st of Inl e \<Rightarrow> Inl e | Inr st' \<Rightarrow> buildLoop rest st')"
  by (subst buildLoop.simps) (simp add: fgets_line)

lemma buildLoop_end: "buildLoop [] (t # st) = Inr t"
  by (subst buildLoop.simps) (simp add: fgets_def)

lemma buildLoop_end_empty: "buildLoop [] [] = Inl OutOfBounds"
  by (subst buildLoop.simps) (simp add: fgets_def)

lemma loop_body_leaf:
  "loop_body (render (LeafTok lb w h) @ junk) st = push (createNode lb w h) st"
proof -
  obtain c cs where c: "render (LeafTok lb w h) = c # cs" "c \<noteq> CHR ''H''" "c \<noteq> CHR ''V''"
    using render_leaf_hd by blast
  have "takeWhile (\<lambda>c. c \<noteq> NUL) (render (LeafTok lb w h) @ junk) =
          render (LeafTok lb w h) @ takeWhile (\<lambda>c. c \<noteq> NUL) junk"
    by (rule takeWhile_append2) (use render_leaf_chars in blast)
  then have "sscanf_leaf (takeWhile (\<lambda>c. c \<noteq> NUL) (render (LeafTok lb w h) @ junk)) =
          Inr (Some lb, Some w, Some h)"
    by (simp only: sscanf_leaf_render)
  moreover have "(case render (LeafTok lb w h) @ junk of [] \<Rightarrow> NUL | c # _ \<Rightarrow> c) = c"
    using c(1) by simp
  ultimately show ?thesis
    using c(2,3) unfolding loop_body_def by (simp only: Let_def) simp
qed

lemma loop_body_op:
  "c = CHR ''H'' \<or> c = CHR ''V'' \<Longrightarrow>
     loop_body (c # junk) (b # a # st) = push (Node 0 0 0 0 0 c (Some a) (Some b)) st"
  by (auto simp: loop_body_def createNode_def)

text \<open>
  An operator line with fewer than two subtrees on the stack, and the end of an empty
  input, index the array at \<^verbatim>\<open>stack[-1]\<close>.
\<close>

lemma loop_body_op_underflow:
  "c = CHR ''H'' \<or> c = CHR ''V'' \<Longrightarrow> length st < 2 \<Longrightarrow> loop_body (c # junk) st = Inl OutOfBounds"
  by (cases st; cases "tl st") (auto simp: loop_body_def createNode_def)

lemma encode_Nil [simp]: "encode [] = []"
  by (simp add: encode_def unlines_def)

lemma encode_Cons [simp]: "encode (k # ts) = render k @ NL # encode ts"
  by (simp add: encode_def unlines_def)

lemma encode_append [simp]: "encode (ts @ us) = encode ts @ encode us"
  by (simp add: encode_def unlines_def)

lemma fresh_well_formed: "fresh t \<Longrightarrow> well_formed t"
  by (induction t) (auto split: option.splits if_splits)

lemma stack_need_pos: "0 < stack_need t"
  by (cases t) (simp add: max_def)

lemma build_leaf:
  assumes "fits_buffer (LeafTok lb w h)"
  shows "buildLoop (render (LeafTok lb w h) @ NL # rest) st =
     (if length st < STACK_SIZE then buildLoop rest (createNode lb w h # st) else Inl OutOfBounds)"
proof -
  have 1: "NL \<notin> set (render (LeafTok lb w h))" using render_leaf_chars by blast
  have 2: "length (render (LeafTok lb w h)) + 1 < LINE_SIZE"
    using assms by (simp add: fits_buffer_def)
  show ?thesis
    by (simp only: buildLoop_line [OF 1 2] loop_body_leaf) (simp add: push_def)
qed

lemma build_op:
  assumes "c = CHR ''H'' \<or> c = CHR ''V''" and "length st < STACK_SIZE"
  shows "buildLoop (c # NL # rest) (b # a # st) = buildLoop rest (Node 0 0 0 0 0 c (Some a) (Some b) # st)"
proof -
  have "buildLoop ([c] @ NL # rest) (b # a # st) =
      (case loop_body ([c] @ [NL]) (b # a # st) of Inl e \<Rightarrow> Inl e | Inr st' \<Rightarrow> buildLoop rest st')"
    by (rule buildLoop_line) (use assms(1) in \<open>auto simp: LINE_SIZE_def\<close>)
  then show ?thesis using assms by (simp add: loop_body_op push_def)
qed

lemma build_postorder:
  "well_formed t \<Longrightarrow> fresh t \<Longrightarrow> list_all fits_buffer (postorder t) \<Longrightarrow>
     length st + stack_need t \<le> STACK_SIZE \<Longrightarrow>
     buildLoop (encode (postorder t) @ rest) st = buildLoop rest (t # st)"
proof (induction t arbitrary: st rest rule: well_formed_induct)
  case (Leaf lb w h x y)
  then show ?case by (simp add: build_leaf createNode_def del: render.simps)
next
  case (Cut lb w h x y c a b)
  from Cut.prems(1) Cut.hyps(1) have f: "fresh a" "fresh b" "lb = 0" "w = 0" "h = 0" "x = 0" "y = 0"
    by auto
  from Cut.prems(2) Cut.hyps(1) have fa: "list_all fits_buffer (postorder a)"
    and fb: "list_all fits_buffer (postorder b)" by auto
  from Cut.prems(3) Cut.hyps(1) have na: "length st + stack_need a \<le> STACK_SIZE"
    and nb: "length (a # st) + stack_need b \<le> STACK_SIZE" by auto
  from nb stack_need_pos [of b] have l: "length st < STACK_SIZE" by simp
  have "buildLoop (encode (postorder (Node lb w h x y c (Some a) (Some b))) @ rest) st =
        buildLoop (encode (postorder a) @ (encode (postorder b) @ (c # NL # rest))) st"
    using Cut.hyps(1) by auto
  also have "\<dots> = buildLoop (encode (postorder b) @ (c # NL # rest)) (a # st)"
    by (rule Cut.IH(1) [OF f(1) fa na])
  also have "\<dots> = buildLoop (c # NL # rest) (b # a # st)"
    by (rule Cut.IH(2) [OF f(2) fb nb])
  also have "\<dots> = buildLoop rest (Node 0 0 0 0 0 c (Some a) (Some b) # st)"
    by (rule build_op [OF Cut.hyps(1) l])
  finally show ?case using f by simp
qed

lemma build_overflow:
  "well_formed t \<Longrightarrow> fresh t \<Longrightarrow> list_all fits_buffer (postorder t) \<Longrightarrow>
     length st \<le> STACK_SIZE \<Longrightarrow> STACK_SIZE < length st + stack_need t \<Longrightarrow>
     buildLoop (encode (postorder t) @ rest) st = Inl OutOfBounds"
proof (induction t arbitrary: st rest rule: well_formed_induct)
  case (Leaf lb w h x y)
  then show ?case by (simp add: build_leaf del: render.simps)
next
  case (Cut lb w h x y c a b)
  from Cut.prems(1) Cut.hyps(1) have f: "fresh a" "fresh b" by auto
  from Cut.prems(2) Cut.hyps(1) have fa: "list_all fits_buffer (postorder a)"
    and fb: "list_all fits_buffer (postorder b)" by auto
  have e: "buildLoop (encode (postorder (Node lb w h x y c (Some a) (Some b))) @ rest) st =
        buildLoop (encode (postorder a) @ (encode (postorder b) @ (c # NL # rest))) st"
    using Cut.hyps(1) by auto
  show ?case
  proof (cases "STACK_SIZE < length st + stack_need a")
    case True
    from Cut.IH(1) [OF f(1) fa Cut.prems(3) True] show ?thesis by (simp only: e)
  next
    case False
    then have na: "length st + stack_need a \<le> STACK_SIZE" by simp
    with stack_need_pos [of a] have la: "length (a # st) \<le> STACK_SIZE" by simp
    from False Cut.prems(4) Cut.hyps(1) have nb: "STACK_SIZE < length (a # st) + stack_need b"
      by auto
    have "buildLoop (encode (postorder a) @ (encode (postorder b) @ (c # NL # rest))) st =
          buildLoop (encode (postorder b) @ (c # NL # rest)) (a # st)"
      by (rule build_postorder [OF Cut.hyps(2) f(1) fa na])
    also have "\<dots> = Inl OutOfBounds"
      by (rule Cut.IH(2) [OF f(2) fb la nb])
    finally show ?thesis by (simp only: e)
  qed
qed

lemma postorder_unique_gen:
  "well_formed t \<Longrightarrow> fresh t \<Longrightarrow> fresh t' \<Longrightarrow> p @ postorder t = p' @ postorder t' \<Longrightarrow>
     p = p' \<and> t = t'"
proof (induction t arbitrary: t' p p' rule: well_formed_induct)
  case (Leaf lb w h x y)
  obtain lb' w' h' x' y' c' l' r' where t': "t' = Node lb' w' h' x' y' c' l' r'" by (cases t')
  show ?case
  proof (cases "c' = NUL")
    case True
    with Leaf t' show ?thesis by auto
  next
    case False
    with Leaf.prems(3) t' have "last (p @ [LeafTok lb w h]) = OpTok c'"
      by (simp del: last_snoc last_append)
    then show ?thesis by simp
  qed
next
  case (Cut lb w h x y c a b)
  from Cut.hyps(1) have c: "c \<noteq> NUL" by auto
  from Cut.prems(1) c have f: "fresh a" "fresh b" "lb = 0" "w = 0" "h = 0" "x = 0" "y = 0"
    by auto
  obtain lb' w' h' x' y' c' l' r' where t': "t' = Node lb' w' h' x' y' c' l' r'" by (cases t')
  show ?case
  proof (cases "c' = NUL")
    case True
    with Cut.prems(3) t' c have "last (p' @ [LeafTok lb' w' h']) = OpTok c"
      by (simp del: last_snoc last_append)
    then show ?thesis by simp
  next
    case False
    with Cut.prems(2) t' obtain a' b' where lr: "l' = Some a'" "r' = Some b'"
      and f': "fresh a'" "fresh b'" "lb' = 0" "w' = 0" "h' = 0" "x' = 0" "y' = 0"
      by (auto split: option.splits)
    from Cut.prems(3) t' c False lr
    have e: "(p @ postorder a) @ postorder b = (p' @ postorder a') @ postorder b'" and cc: "c = c'"
      by auto
    from Cut.IH(2) [OF f(2) f'(2) e] have b: "b = b'" and e2: "p @ postorder a = p' @ postorder a'"
      by auto
    from Cut.IH(1) [OF f(1) f'(1) e2] have "a = a'" "p = p'" by auto
    with b cc f f' lr t' show ?thesis by simp
  qed
qed

lemma postorder_unique:
  "fresh t \<Longrightarrow> fresh t' \<Longrightarrow> postorder t' = postorder t \<Longrightarrow> t' = t"
  using postorder_unique_gen [OF fresh_well_formed, of t t' "[]" "[]"] by auto

lemma buildTree_postorder:
  assumes "fresh t" and "list_all fits_buffer (postorder t)" and "stack_need t \<le> STACK_SIZE"
  shows "buildTree (encode (postorder t)) = Inr t"
proof -
  have "buildLoop (encode (postorder t) @ []) [] = buildLoop [] [t]"
    by (rule build_postorder [OF fresh_well_formed]) (use assms in simp_all)
  then show ?thesis by (simp add: buildTree_def buildLoop_end)
qed

lemma buildTree_overflow:
  assumes "fresh t" and "list_all fits_buffer (postorder t)" and "STACK_SIZE < stack_need t"
  shows "buildTree (encode (postorder t)) = Inl OutOfBounds"
proof -
  have "buildLoop (encode (postorder t) @ []) [] = Inl OutOfBounds"
    by (rule build_overflow [OF fresh_well_formed]) (use assms in simp_all)
  then show ?thesis by (simp add: buildTree_def)
qed

lemma right_comb_fresh: "fresh (right_comb n)"
  by (induction n) simp_all

lemma right_comb_need: "stack_need (right_comb n) = Suc n"
  by (induction n) simp_all

lemma right_comb_postorder:
  "postorder (right_comb n) = replicate (Suc n) (LeafTok 1 1 1) @ replicate n (OpTok (CHR ''H''))"
  by (induction n) (simp_all add: replicate_append_same)

lemma leaf_111_fits: "fits_buffer (LeafTok 1 1 1)"
  by code_simp

lemma op_fits: "fits_buffer (OpTok c)"
  by (simp add: fits_buffer_def LINE_SIZE_def)

lemma right_comb_fits: "list_all fits_buffer (postorder (right_comb n))"
  by (auto simp: right_comb_postorder list_all_iff leaf_111_fits op_fits)

lemma right_comb_valid: "list_all valid_token (postorder (right_comb n))"
  by (auto simp: right_comb_postorder list_all_iff word_sless_alt)

lemma leaf_111_render: "render (LeafTok 1 1 1) = ''1(1,1)''"
  by code_simp

lemma right_comb_text:
  "encode (postorder (right_comb n)) =
     concat (replicate (Suc n) (''1(1,1)'' @ [NL])) @ concat (replicate n (''H'' @ [NL]))"
  by (simp add: right_comb_postorder encode_def unlines_def leaf_111_render
      del: render.simps(1) replicate_Suc)

lemma builder_empty_input: "buildTree [] = Inl OutOfBounds"
  by (simp add: buildTree_def buildLoop_end_empty)

text \<open>
  Claim C7, as amended. The stack of the builder is an array of 1000 entries. The encoding
  of a tree (every line fitting the line buffer) is built without leaving the array when
  at most 1000 subtrees are pending at any time; when more are pending the builder writes
  past the end of the array. No resource error is reported.
\<close>

theorem stack_capacity:
  assumes "fresh t" and "list_all fits_buffer (postorder t)"
  shows "(stack_need t \<le> 1000 \<longrightarrow> buildTree (encode (postorder t)) = Inr t)
     \<and> (1000 < stack_need t \<longrightarrow> buildTree (encode (postorder t)) = Inl OutOfBounds)"
  using buildTree_postorder [OF assms] buildTree_overflow [OF assms]
  by (simp add: STACK_SIZE_def)

theorem stack_capacity_witness:
  "fresh (right_comb 1000) \<and> list_all fits_buffer (postorder (right_comb 1000))
   \<and> 1000 < stack_need (right_comb 1000)
   \<and> buildTree (encode (postorder (right_comb 1000))) = Inl OutOfBounds
   \<and> fresh (right_comb 999) \<and> list_all fits_buffer (postorder (right_comb 999))
   \<and> stack_need (right_comb 999) \<le> 1000
   \<and> buildTree (encode (postorder (right_comb 999))) = Inr (right_comb 999)"
  using stack_capacity [OF right_comb_fresh right_comb_fits, of 1000]
    stack_capacity [OF right_comb_fresh right_comb_fits, of 999]
  by (simp add: right_comb_need right_comb_fresh right_comb_fits)

text \<open>
  A valid sequence of 1001 leaves followed by 1000 operators: the leaf pushed last is
  written to \<^verbatim>\<open>stack[1000]\<close>.
\<close>

theorem stack_overflow_counterexample:
  "list_all valid_token (replicate 1001 (LeafTok 1 1 1) @ replicate 1000 (OpTok (CHR ''H'')))
   \<and> encode (replicate 1001 (LeafTok 1 1 1) @ replicate 1000 (OpTok (CHR ''H''))) =
       concat (replicate 1001 (''1(1,1)'' @ [NL])) @ concat (replicate 1000 (''H'' @ [NL]))
   \<and> buildTree (concat (replicate 1001 (''1(1,1)'' @ [NL])) @ concat (replicate 1000 (''H'' @ [NL])))
       = Inl OutOfBounds"
proof -
  have p: "postorder (right_comb 1000) =
      replicate 1001 (LeafTok 1 1 1) @ replicate 1000 (OpTok (CHR ''H''))"
    using right_comb_postorder [of 1000] by simp
  have t: "encode (postorder (right_comb 1000)) =
      concat (replicate 1001 (''1(1,1)'' @ [NL])) @ concat (replicate 1000 (''H'' @ [NL]))"
    using right_comb_text [of 1000] by simp
  have "buildTree (encode (postorder (right_comb 1000))) = Inl OutOfBounds"
    by (rule buildTree_overflow [OF right_comb_fresh right_comb_fits])
       (simp add: right_comb_need STACK_SIZE_def)
  with p t right_comb_valid [of 1000] show ?thesis by simp
qed

subsection \<open>The geometry of the placed leaves\<close>

text \<open>
  The width and the height of the enclosing rectangle of a tree as integers, computed from
  the leaves by the rules of the dimension pass without the 32-bit wrap-around.
\<close>

fun exact_width :: "Node \<Rightarrow> int" and exact_height :: "Node \<Rightarrow> int" where
  "exact_width (Node lb w h x y t l r) =
     (if t = NUL then sint w
      else if t = CHR ''H''
      then max (case l of None \<Rightarrow> 0 | Some a \<Rightarrow> exact_width a)
               (case r of None \<Rightarrow> 0 | Some b \<Rightarrow> exact_width b)
      else (case l of None \<Rightarrow> 0 | Some a \<Rightarrow> exact_width a)
         + (case r of None \<Rightarrow> 0 | Some b \<Rightarrow> exact_width b))"
| "exact_height (Node lb w h x y t l r) =
     (if t = NUL then sint h
      else if t = CHR ''H''
      then (case l of None \<Rightarrow> 0 | Some a \<Rightarrow> exact_height a)
         + (case r of None \<Rightarrow> 0 | Some b \<Rightarrow> exact_height b)
      else max (case l of None \<Rightarrow> 0 | Some a \<Rightarrow> exact_height a)
               (case r of None \<Rightarrow> 0 | Some b \<Rightarrow> exact_height b))"

definition positive_leaf :: "Node \<Rightarrow> bool" where
  "positive_leaf n \<longleftrightarrow> 0 < sint (width n) \<and> 0 < sint (height n)"

text \<open>
  Two leaves overlap in area when their rectangles, read as sets of points of the plane
  with the fields taken as signed integers, share a region of positive area. A list of
  leaves has no overlap when no two of its entries at different positions overlap. A leaf
  is inside a root when its rectangle lies in the rectangle of the root's width and height
  at the origin.
\<close>

definition overlap :: "Node \<Rightarrow> Node \<Rightarrow> bool" where
  "overlap m n \<longleftrightarrow>
     sint (xpos m) < sint (xpos n) + sint (width n) \<and> sint (xpos n) < sint (xpos m) + sint (width m)
     \<and> sint (ypos m) < sint (ypos n) + sint (height n) \<and> sint (ypos n) < sint (ypos m) + sint (height m)"

fun no_overlap :: "Node list \<Rightarrow> bool" where
  "no_overlap [] = True"
| "no_overlap (n # ns) = (list_all (\<lambda>m. \<not> overlap n m) ns \<and> no_overlap ns)"

definition inside :: "Node \<Rightarrow> Node \<Rightarrow> bool" where
  "inside root n \<longleftrightarrow>
     0 \<le> sint (xpos n) \<and> 0 \<le> sint (ypos n)
     \<and> sint (xpos n) + sint (width n) \<le> sint (width root)
     \<and> sint (ypos n) + sint (height n) \<le> sint (height root)"

text \<open>
  The dimension rule in exact integer arithmetic: every width and height is positive, and
  the width and height of a cut are the maximum and the sum of its children's as integers,
  with no wrap-around.
\<close>

fun sized :: "Node \<Rightarrow> bool" where
  "sized (Node lb w h x y t l r) =
     (0 < sint w \<and> 0 < sint h
      \<and> (if t = NUL then True
         else
           (case (l, r) of
              (Some a, Some b) \<Rightarrow>
                sized a \<and> sized b
                \<and> (if t = CHR ''H''
                   then sint w = max (sint (width a)) (sint (width b))
                      \<and> sint h = sint (height a) + sint (height b)
                   else sint w = sint (width a) + sint (width b)
                      \<and> sint h = max (sint (height a)) (sint (height b)))
            | _ \<Rightarrow> False)))"

text \<open>The rectangle of the leaf \<open>n\<close> lies in the rectangle at \<open>(X, Y)\<close> of size \<open>W\<close> by \<open>H\<close>.\<close>

definition within :: "int \<Rightarrow> int \<Rightarrow> int \<Rightarrow> int \<Rightarrow> Node \<Rightarrow> bool" where
  "within X Y W H n \<longleftrightarrow>
     X \<le> sint (xpos n) \<and> Y \<le> sint (ypos n)
     \<and> sint (xpos n) + sint (width n) \<le> X + W
     \<and> sint (ypos n) + sint (height n) \<le> Y + H"

lemma sint_add_exact:
  "- (2 ^ 31) \<le> sint a + sint b \<Longrightarrow> sint a + sint b < 2 ^ 31 \<Longrightarrow>
     sint (a + b :: cint) = sint a + sint b"
  by (simp add: sint_word_ariths signed_take_bit_int_eq_self)

lemma sint_smax: "sint (smax a b) = max (sint a) (sint b)"
  by (simp add: smax_def word_sless_alt max_def)

lemma exact_positive:
  "well_formed t \<Longrightarrow> list_all positive_leaf (leaves t) \<Longrightarrow> 0 < exact_width t \<and> 0 < exact_height t"
  by (induction t rule: well_formed_induct) (auto simp: positive_leaf_def)

lemma computeDimensions_exact:
  "well_formed t \<Longrightarrow> list_all positive_leaf (leaves t) \<Longrightarrow>
     exact_width t < 2 ^ 31 \<Longrightarrow> exact_height t < 2 ^ 31 \<Longrightarrow>
     \<exists>t'. computeDimensions (Some t) = Inr (Some t') \<and> well_formed t' \<and> sized t'
       \<and> sint (width t') = exact_width t \<and> sint (height t') = exact_height t
       \<and> leaves t' = leaves t"
proof (induction t rule: well_formed_induct)
  case (Leaf lb w h x y)
  then show ?case by (simp add: positive_leaf_def)
next
  case (Cut lb w h x y c a b)
  from Cut.hyps(1) have c: "c \<noteq> NUL" by auto
  from Cut.prems(1) c have pa: "list_all positive_leaf (leaves a)"
    and pb: "list_all positive_leaf (leaves b)" by simp_all
  from exact_positive [OF Cut.hyps(2) pa] exact_positive [OF Cut.hyps(3) pb]
  have pos: "0 < exact_width a" "0 < exact_height a" "0 < exact_width b" "0 < exact_height b"
    by simp_all
  from Cut.prems(2,3) c Cut.hyps(1) pos
  have bnd: "exact_width a < 2 ^ 31" "exact_height a < 2 ^ 31"
    "exact_width b < 2 ^ 31" "exact_height b < 2 ^ 31"
    by (auto split: if_splits)
  from Cut.IH(1) [OF pa bnd(1,2)] obtain a' where
    a: "computeDimensions (Some a) = Inr (Some a')" "well_formed a'" "sized a'"
       "sint (width a') = exact_width a" "sint (height a') = exact_height a" "leaves a' = leaves a"
    by blast
  from Cut.IH(2) [OF pb bnd(3,4)] obtain b' where
    b: "computeDimensions (Some b) = Inr (Some b')" "well_formed b'" "sized b'"
       "sint (width b') = exact_width b" "sint (height b') = exact_height b" "leaves b' = leaves b"
    by blast
  show ?case
  proof (cases "c = CHR ''H''")
    case True
    from Cut.prems(3) True pos
    have s: "sint (height a' + height b') = exact_height a + exact_height b"
      by (subst sint_add_exact) (simp_all add: a b)
    show ?thesis
      unfolding computeDimensions_Cut [OF Cut.hyps(1) a(1) b(1)]
      using True a(2-) b(2-) pos s by (simp add: sint_smax)
  next
    case False
    with Cut.hyps(1) have v: "c = CHR ''V''" by simp
    from Cut.prems(2) v pos
    have s: "sint (width a' + width b') = exact_width a + exact_width b"
      by (subst sint_add_exact) (simp_all add: a b)
    show ?thesis
      unfolding computeDimensions_Cut [OF Cut.hyps(1) a(1) b(1)]
      using v a(2-) b(2-) pos s by (simp add: sint_smax)
  qed
qed

lemma sized_positive: "sized t \<Longrightarrow> 0 < sint (width t) \<and> 0 < sint (height t)"
  by (cases t) simp

lemma no_overlap_append:
  "no_overlap (ms @ ns) \<longleftrightarrow>
     no_overlap ms \<and> no_overlap ns \<and> (\<forall>m \<in> set ms. \<forall>n \<in> set ns. \<not> overlap m n)"
  by (induction ms) (auto simp: list_all_iff)

lemma within_apart_x:
  "within X Y W H m \<Longrightarrow> within X' Y' W' H' n \<Longrightarrow> X + W \<le> X' \<Longrightarrow> \<not> overlap m n"
  by (auto simp: within_def overlap_def)

lemma within_apart_y:
  "within X Y W H m \<Longrightarrow> within X' Y' W' H' n \<Longrightarrow> Y' + H' \<le> Y \<Longrightarrow> \<not> overlap m n"
  by (auto simp: within_def overlap_def)

lemma computeCoordinates_exact:
  "well_formed t \<Longrightarrow> sized t \<Longrightarrow> 0 \<le> sint x \<Longrightarrow> 0 \<le> sint y \<Longrightarrow>
     sint x + sint (width t) < 2 ^ 31 \<Longrightarrow> sint y + sint (height t) < 2 ^ 31 \<Longrightarrow>
     \<exists>t'. computeCoordinates (Some t) x y = Inr (Some t')
       \<and> width t' = width t \<and> height t' = height t
       \<and> list_all (within (sint x) (sint y) (sint (width t)) (sint (height t))) (leaves t')
       \<and> no_overlap (leaves t')
       \<and> map intrinsic (leaves t') = map intrinsic (leaves t)"
proof (induction t arbitrary: x y rule: well_formed_induct)
  case (Leaf lb w h nx ny)
  show ?case by (simp add: within_def intrinsic_def)
next
  case (Cut lb w h nx ny c a b)
  from Cut.hyps(1) have c: "c \<noteq> NUL" by auto
  from Cut.prems(1) c have sa: "sized a" and sb: "sized b" by simp_all
  from sized_positive [OF sa] sized_positive [OF sb]
  have pos: "0 < sint (width a)" "0 < sint (height a)" "0 < sint (width b)" "0 < sint (height b)"
    by simp_all
  show ?case
  proof (cases "c = CHR ''H''")
    case True
    from Cut.prems(1) True have w: "sint w = max (sint (width a)) (sint (width b))"
      and h: "sint h = sint (height a) + sint (height b)" by simp_all
    have y': "sint (y + height b) = sint y + sint (height b)"
      using Cut.prems(3,5) h pos by (subst sint_add_exact) simp_all
    have pa: "0 \<le> sint (y + height b)" "sint x + sint (width a) < 2 ^ 31"
      "sint (y + height b) + sint (height a) < 2 ^ 31"
      using Cut.prems(2,3,4,5) w h pos y' by simp_all
    from Cut.IH(1) [OF sa Cut.prems(2) pa]
    obtain a' where a: "computeCoordinates (Some a) x (y + height b) = Inr (Some a')"
      "list_all (within (sint x) (sint (y + height b)) (sint (width a)) (sint (height a))) (leaves a')"
      "no_overlap (leaves a')" "map intrinsic (leaves a') = map intrinsic (leaves a)"
      by blast
    have pb: "sint x + sint (width b) < 2 ^ 31" "sint y + sint (height b) < 2 ^ 31"
      using Cut.prems(2,3,4,5) w h pos by simp_all
    from Cut.IH(2) [OF sb Cut.prems(2,3) pb]
    obtain b' where b: "computeCoordinates (Some b) x y = Inr (Some b')"
      "list_all (within (sint x) (sint y) (sint (width b)) (sint (height b))) (leaves b')"
      "no_overlap (leaves b')" "map intrinsic (leaves b') = map intrinsic (leaves b)"
      by blast
    have wa: "within (sint x) (sint y) (sint w) (sint h) n" if "n \<in> set (leaves a')" for n
      using a(2) that w h pos y' by (auto simp: list_all_iff within_def)
    have wb: "within (sint x) (sint y) (sint w) (sint h) n" if "n \<in> set (leaves b')" for n
      using b(2) that w h pos by (auto simp: list_all_iff within_def)
    have apart: "\<not> overlap m n" if "m \<in> set (leaves a')" "n \<in> set (leaves b')" for m n
    proof -
      from a(2) that(1)
      have m: "within (sint x) (sint (y + height b)) (sint (width a)) (sint (height a)) m"
        by (simp add: list_all_iff)
      from b(2) that(2)
      have n: "within (sint x) (sint y) (sint (width b)) (sint (height b)) n"
        by (simp add: list_all_iff)
      show ?thesis by (rule within_apart_y [OF m n]) (simp add: y')
    qed
    show ?thesis
      unfolding True computeCoordinates_Cut_H [OF a(1) b(1)]
      using a(3,4) b(3,4) wa wb apart
      by (auto simp: no_overlap_append list_all_iff)
  next
    case False
    with Cut.hyps(1) have v: "c = CHR ''V''" by simp
    from Cut.prems(1) v have w: "sint w = sint (width a) + sint (width b)"
      and h: "sint h = max (sint (height a)) (sint (height b))" by simp_all
    have pa: "sint x + sint (width a) < 2 ^ 31" "sint y + sint (height a) < 2 ^ 31"
      using Cut.prems(2,3,4,5) w h pos by simp_all
    from Cut.IH(1) [OF sa Cut.prems(2,3) pa]
    obtain a' where a: "computeCoordinates (Some a) x y = Inr (Some a')"
      "width a' = width a"
      "list_all (within (sint x) (sint y) (sint (width a)) (sint (height a))) (leaves a')"
      "no_overlap (leaves a')" "map intrinsic (leaves a') = map intrinsic (leaves a)"
      by blast
    have x': "sint (x + width a') = sint x + sint (width a)"
      using Cut.prems(2,4) w pos a(2) by (subst sint_add_exact) simp_all
    have pb: "0 \<le> sint (x + width a')" "sint (x + width a') + sint (width b) < 2 ^ 31"
      "sint y + sint (height b) < 2 ^ 31"
      using Cut.prems(2,3,4,5) w h pos x' by simp_all
    from Cut.IH(2) [OF sb pb(1) Cut.prems(3) pb(2,3)]
    obtain b' where b: "computeCoordinates (Some b) (x + width a') y = Inr (Some b')"
      "list_all (within (sint (x + width a')) (sint y) (sint (width b)) (sint (height b))) (leaves b')"
      "no_overlap (leaves b')" "map intrinsic (leaves b') = map intrinsic (leaves b)"
      by blast
    have wa: "within (sint x) (sint y) (sint w) (sint h) n" if "n \<in> set (leaves a')" for n
      using a(3) that w h pos by (auto simp: list_all_iff within_def)
    have wb: "within (sint x) (sint y) (sint w) (sint h) n" if "n \<in> set (leaves b')" for n
      using b(2) that w h pos x' by (auto simp: list_all_iff within_def)
    have apart: "\<not> overlap m n" if "m \<in> set (leaves a')" "n \<in> set (leaves b')" for m n
    proof -
      from a(3) that(1)
      have m: "within (sint x) (sint y) (sint (width a)) (sint (height a)) m"
        by (simp add: list_all_iff)
      from b(2) that(2)
      have n: "within (sint (x + width a')) (sint y) (sint (width b)) (sint (height b)) n"
        by (simp add: list_all_iff)
      show ?thesis by (rule within_apart_x [OF m n]) (simp add: x')
    qed
    show ?thesis
      unfolding v computeCoordinates_Cut_V [OF a(1) b(1)]
      using a(4,5) b(3,4) wa wb apart
      by (auto simp: no_overlap_append list_all_iff)
  qed
qed

lemma passes_exact:
  assumes "buildTree input = Inr root" and "list_all positive_leaf (leaves root)"
    and "exact_width root < 2 ^ 31" and "exact_height root < 2 ^ 31"
  shows "\<exists>root1 root2. computeDimensions (Some root) = Inr (Some root1)
     \<and> computeCoordinates (Some root1) 0 0 = Inr (Some root2)
     \<and> list_all (inside root2) (leaves root2) \<and> no_overlap (leaves root2)
     \<and> map intrinsic (leaves root2) = map intrinsic (leaves root)"
proof -
  from computeDimensions_exact [OF buildTree_well_formed [OF assms(1)] assms(2,3,4)]
  obtain root1 where d: "computeDimensions (Some root) = Inr (Some root1)" "well_formed root1"
    "sized root1" "sint (width root1) = exact_width root" "sint (height root1) = exact_height root"
    "leaves root1 = leaves root"
    by blast
  have "0 \<le> sint (0 :: cint)" "sint (0 :: cint) + sint (width root1) < 2 ^ 31"
    "sint (0 :: cint) + sint (height root1) < 2 ^ 31"
    using d(4,5) assms(3,4) by simp_all
  from computeCoordinates_exact [OF d(2,3) this(1) this(1) this(2,3)]
  obtain root2 where c: "computeCoordinates (Some root1) 0 0 = Inr (Some root2)"
    "width root2 = width root1" "height root2 = height root1"
    "list_all (within 0 0 (sint (width root1)) (sint (height root1))) (leaves root2)"
    "no_overlap (leaves root2)" "map intrinsic (leaves root2) = map intrinsic (leaves root1)"
    by (auto simp del: computeCoordinates.simps)
  from c(2,3,4) have "list_all (inside root2) (leaves root2)"
    by (simp add: list_all_iff within_def inside_def)
  with d(1,6) c(1,5,6) show ?thesis by simp
qed

lemma example_positive:
  "list_all positive_leaf (leaves (Node 0 0 0 0 0 (CHR ''H'') (Some (Node 1 2 3 0 0 NUL None None))
            (Some (Node 2 4 5 0 0 NUL None None))))"
  by (simp add: positive_leaf_def)

lemma example_exact:
  "exact_width (Node 0 0 0 0 0 (CHR ''H'') (Some (Node 1 2 3 0 0 NUL None None))
            (Some (Node 2 4 5 0 0 NUL None None))) < 2 ^ 31"
  "exact_height (Node 0 0 0 0 0 (CHR ''H'') (Some (Node 1 2 3 0 0 NUL None None))
            (Some (Node 2 4 5 0 0 NUL None None))) < 2 ^ 31"
  by simp_all

text \<open>
  Claim C4, as amended. For every tree the builder returns whose leaves have positive
  width and height and whose enclosing rectangle fits an \<^verbatim>\<open>int\<close> (its exact width and
  height are below \<open>2^31\<close>), the dimension pass and the coordinate pass from the origin
  \<open>(0, 0)\<close> return a tree in which no two distinct leaves overlap in area; the leaves are
  those that were built, with their labels, widths and heights.
\<close>

theorem leaves_do_not_overlap:
  assumes "buildTree input = Inr root" and "list_all positive_leaf (leaves root)"
    and "exact_width root < 2 ^ 31" and "exact_height root < 2 ^ 31"
  shows "\<exists>root1 root2. computeDimensions (Some root) = Inr (Some root1)
     \<and> computeCoordinates (Some root1) 0 0 = Inr (Some root2)
     \<and> no_overlap (leaves root2)
     \<and> map intrinsic (leaves root2) = map intrinsic (leaves root)"
  using passes_exact [OF assms] by blast

theorem leaves_do_not_overlap_witness:
  "buildTree (unlines [''1(2,3)'', ''2(4,5)'', ''H'']) =
     Inr (Node 0 0 0 0 0 (CHR ''H'') (Some (Node 1 2 3 0 0 NUL None None))
            (Some (Node 2 4 5 0 0 NUL None None)))
   \<and> list_all positive_leaf (leaves (Node 0 0 0 0 0 (CHR ''H'')
        (Some (Node 1 2 3 0 0 NUL None None)) (Some (Node 2 4 5 0 0 NUL None None))))
   \<and> exact_width (Node 0 0 0 0 0 (CHR ''H'') (Some (Node 1 2 3 0 0 NUL None None))
            (Some (Node 2 4 5 0 0 NUL None None))) < 2 ^ 31
   \<and> exact_height (Node 0 0 0 0 0 (CHR ''H'') (Some (Node 1 2 3 0 0 NUL None None))
            (Some (Node 2 4 5 0 0 NUL None None))) < 2 ^ 31
   \<and> (\<exists>root1 root2.
         computeDimensions (Some (Node 0 0 0 0 0 (CHR ''H'')
           (Some (Node 1 2 3 0 0 NUL None None)) (Some (Node 2 4 5 0 0 NUL None None))))
           = Inr (Some root1)
       \<and> computeCoordinates (Some root1) 0 0 = Inr (Some root2)
       \<and> no_overlap (leaves root2)
       \<and> map intrinsic (leaves root2) = map intrinsic (leaves (Node 0 0 0 0 0 (CHR ''H'')
           (Some (Node 1 2 3 0 0 NUL None None)) (Some (Node 2 4 5 0 0 NUL None None)))))"
  using leaves_do_not_overlap [OF example_tree example_positive example_exact]
    example_tree example_positive example_exact
  by blast

text \<open>
  Without the bound the claim fails: with two leaves of width 2147483647 side by side the
  width of their cut wraps around to \<open>-2\<close>, so a third leaf of width 10 to the right of
  the cut is placed at \<open>x = -2\<close> and covers the points with \<open>0 \<le> x < 8\<close>, which the
  first leaf covers as well.
\<close>

theorem leaves_do_not_overlap_counterexample:
  "buildTree (unlines [''1(2147483647,1)'', ''2(2147483647,1)'', ''V'', ''3(10,1)'', ''V'']) =
     Inr (Node 0 0 0 0 0 (CHR ''V'')
            (Some (Node 0 0 0 0 0 (CHR ''V'')
               (Some (Node 1 2147483647 1 0 0 NUL None None))
               (Some (Node 2 2147483647 1 0 0 NUL None None))))
            (Some (Node 3 10 1 0 0 NUL None None)))
   \<and> list_all valid_token (postorder (Node 0 0 0 0 0 (CHR ''V'')
            (Some (Node 0 0 0 0 0 (CHR ''V'')
               (Some (Node 1 2147483647 1 0 0 NUL None None))
               (Some (Node 2 2147483647 1 0 0 NUL None None))))
            (Some (Node 3 10 1 0 0 NUL None None))))
   \<and> computeDimensions (Some (Node 0 0 0 0 0 (CHR ''V'')
            (Some (Node 0 0 0 0 0 (CHR ''V'')
               (Some (Node 1 2147483647 1 0 0 NUL None None))
               (Some (Node 2 2147483647 1 0 0 NUL None None))))
            (Some (Node 3 10 1 0 0 NUL None None)))) =
     Inr (Some (Node 0 8 1 0 0 (CHR ''V'')
            (Some (Node 0 (- 2) 1 0 0 (CHR ''V'')
               (Some (Node 1 2147483647 1 0 0 NUL None None))
               (Some (Node 2 2147483647 1 0 0 NUL None None))))
            (Some (Node 3 10 1 0 0 NUL None None))))
   \<and> computeCoordinates (Some (Node 0 8 1 0 0 (CHR ''V'')
            (Some (Node 0 (- 2) 1 0 0 (CHR ''V'')
               (Some (Node 1 2147483647 1 0 0 NUL None None))
               (Some (Node 2 2147483647 1 0 0 NUL None None))))
            (Some (Node 3 10 1 0 0 NUL None None)))) 0 0 =
     Inr (Some (Node 0 8 1 0 0 (CHR ''V'')
            (Some (Node 0 (- 2) 1 0 0 (CHR ''V'')
               (Some (Node 1 2147483647 1 0 0 NUL None None))
               (Some (Node 2 2147483647 1 2147483647 0 NUL None None))))
            (Some (Node 3 10 1 (- 2) 0 NUL None None))))
   \<and> leaves (Node 0 8 1 0 0 (CHR ''V'')
            (Some (Node 0 (- 2) 1 0 0 (CHR ''V'')
               (Some (Node 1 2147483647 1 0 0 NUL None None))
               (Some (Node 2 2147483647 1 2147483647 0 NUL None None))))
            (Some (Node 3 10 1 (- 2) 0 NUL None None))) =
       [Node 1 2147483647 1 0 0 NUL None None, Node 2 2147483647 1 2147483647 0 NUL None None,
        Node 3 10 1 (- 2) 0 NUL None None]
   \<and> overlap (Node 1 2147483647 1 0 0 NUL None None) (Node 3 10 1 (- 2) 0 NUL None None)
   \<and> \<not> no_overlap [Node 1 2147483647 1 0 0 NUL None None,
        Node 2 2147483647 1 2147483647 0 NUL None None, Node 3 10 1 (- 2) 0 NUL None None]"
  by code_simp

text \<open>
  Claim C10, as amended. For every tree the builder returns whose leaves have positive
  width and height and whose enclosing rectangle fits an \<^verbatim>\<open>int\<close> (its exact width and
  height are below \<open>2^31\<close>), after the dimension pass and the coordinate pass from the
  origin \<open>(0, 0)\<close> every leaf lies inside the rectangle of the root: \<open>x \<ge> 0\<close>,
  \<open>y \<ge> 0\<close>, \<open>x + width \<le> root.width\<close> and \<open>y + height \<le> root.height\<close>.
\<close>

theorem leaves_inside_root:
  assumes "buildTree input = Inr root" and "list_all positive_leaf (leaves root)"
    and "exact_width root < 2 ^ 31" and "exact_height root < 2 ^ 31"
  shows "\<exists>root1 root2. computeDimensions (Some root) = Inr (Some root1)
     \<and> computeCoordinates (Some root1) 0 0 = Inr (Some root2)
     \<and> list_all (inside root2) (leaves root2)
     \<and> map intrinsic (leaves root2) = map intrinsic (leaves root)"
  using passes_exact [OF assms] by blast

theorem leaves_inside_root_witness:
  "buildTree (unlines [''1(2,3)'', ''2(4,5)'', ''H'']) =
     Inr (Node 0 0 0 0 0 (CHR ''H'') (Some (Node 1 2 3 0 0 NUL None None))
            (Some (Node 2 4 5 0 0 NUL None None)))
   \<and> list_all positive_leaf (leaves (Node 0 0 0 0 0 (CHR ''H'')
        (Some (Node 1 2 3 0 0 NUL None None)) (Some (Node 2 4 5 0 0 NUL None None))))
   \<and> exact_width (Node 0 0 0 0 0 (CHR ''H'') (Some (Node 1 2 3 0 0 NUL None None))
            (Some (Node 2 4 5 0 0 NUL None None))) < 2 ^ 31
   \<and> exact_height (Node 0 0 0 0 0 (CHR ''H'') (Some (Node 1 2 3 0 0 NUL None None))
            (Some (Node 2 4 5 0 0 NUL None None))) < 2 ^ 31
   \<and> (\<exists>root1 root2.
         computeDimensions (Some (Node 0 0 0 0 0 (CHR ''H'')
           (Some (Node 1 2 3 0 0 NUL None None)) (Some (Node 2 4 5 0 0 NUL None None))))
           = Inr (Some root1)
       \<and> computeCoordinates (Some root1) 0 0 = Inr (Some root2)
       \<and> list_all (inside root2) (leaves root2)
       \<and> map intrinsic (leaves root2) = map intrinsic (leaves (Node 0 0 0 0 0 (CHR ''H'')
           (Some (Node 1 2 3 0 0 NUL None None)) (Some (Node 2 4 5 0 0 NUL None None)))))"
  using leaves_inside_root [OF example_tree example_positive example_exact]
    example_tree example_positive example_exact
  by blast

text \<open>
  Without the bound the claim fails: with two leaves of width 2147483647 side by side the
  width of the root wraps around to \<open>-2\<close>, and the first leaf, at \<open>x = 0\<close>, ends at
  \<open>2147483647\<close>.
\<close>

theorem leaves_inside_root_counterexample:
  "buildTree (unlines [''1(2147483647,1)'', ''2(2147483647,1)'', ''V'']) =
     Inr (Node 0 0 0 0 0 (CHR ''V'')
            (Some (Node 1 2147483647 1 0 0 NUL None None))
            (Some (Node 2 2147483647 1 0 0 NUL None None)))
   \<and> list_all valid_token (postorder (Node 0 0 0 0 0 (CHR ''V'')
            (Some (Node 1 2147483647 1 0 0 NUL None None))
            (Some (Node 2 2147483647 1 0 0 NUL None None))))
   \<and> computeDimensions (Some (Node 0 0 0 0 0 (CHR ''V'')
            (Some (Node 1 2147483647 1 0 0 NUL None None))
            (Some (Node 2 2147483647 1 0 0 NUL None None)))) =
     Inr (Some (Node 0 (- 2) 1 0 0 (CHR ''V'')
            (Some (Node 1 2147483647 1 0 0 NUL None None))
            (Some (Node 2 2147483647 1 0 0 NUL None None))))
   \<and> computeCoordinates (Some (Node 0 (- 2) 1 0 0 (CHR ''V'')
            (Some (Node 1 2147483647 1 0 0 NUL None None))
            (Some (Node 2 2147483647 1 0 0 NUL None None)))) 0 0 =
     Inr (Some (Node 0 (- 2) 1 0 0 (CHR ''V'')
            (Some (Node 1 2147483647 1 0 0 NUL None None))
            (Some (Node 2 2147483647 1 2147483647 0 NUL None None))))
   \<and> leaves (Node 0 (- 2) 1 0 0 (CHR ''V'')
            (Some (Node 1 2147483647 1 0 0 NUL None None))
            (Some (Node 2 2147483647 1 2147483647 0 NUL None None))) =
       [Node 1 2147483647 1 0 0 NUL None None, Node 2 2147483647 1 2147483647 0 NUL None None]
   \<and> sint (width (Node 0 (- 2) 1 0 0 (CHR ''V'')
            (Some (Node 1 2147483647 1 0 0 NUL None None))
            (Some (Node 2 2147483647 1 2147483647 0 NUL None None)))) = - 2
   \<and> \<not> inside (Node 0 (- 2) 1 0 0 (CHR ''V'')
            (Some (Node 1 2147483647 1 0 0 NUL None None))
            (Some (Node 2 2147483647 1 2147483647 0 NUL None None)))
          (Node 1 2147483647 1 0 0 NUL None None)"
  by code_simp

subsection \<open>The dimension rule over the integers\<close>

text \<open>A number fits a 32-bit \<^verbatim>\<open>int\<close>.\<close>

definition int_range :: "int \<Rightarrow> bool" where
  "int_range v \<longleftrightarrow> - (2 ^ 31) \<le> v \<and> v < 2 ^ 31"

text \<open>
  The width and the height of every subtree of a tree, computed over the integers by the
  rules of the dimension pass, fit an \<^verbatim>\<open>int\<close>.
\<close>

fun dimensions_fit :: "Node \<Rightarrow> bool" where
  "dimensions_fit (Node lb w h x y t l r) =
     (int_range (exact_width (Node lb w h x y t l r))
      \<and> int_range (exact_height (Node lb w h x y t l r))
      \<and> (case l of None \<Rightarrow> True | Some a \<Rightarrow> dimensions_fit a)
      \<and> (case r of None \<Rightarrow> True | Some b \<Rightarrow> dimensions_fit b))"

text \<open>
  The rule of the specification for the dimension pass, between the tree that was built
  and the tree after the pass, with the sums and maxima taken over the integers. The two
  trees have the same shape and, node by node, the same label, coordinates and type. A
  leaf has the width and height it was built with. A cut of type \<^verbatim>\<open>H\<close> has the
  larger of its children's widths as its width and the sum of their heights as its height;
  a cut of type \<^verbatim>\<open>V\<close> has the sum of the widths and the larger of the heights. The
  children's widths and heights are those after the pass, so the rule bottoms out at the
  leaves.
\<close>

fun dimension_rule :: "Node \<Rightarrow> Node \<Rightarrow> bool" where
  "dimension_rule (Node lb w h x y t l r) (Node lb' w' h' x' y' t' l' r') =
     (lb' = lb \<and> x' = x \<and> y' = y \<and> t' = t
      \<and> (case (l, r, l', r') of
           (None, None, None, None) \<Rightarrow> w' = w \<and> h' = h
         | (Some a, Some b, Some a', Some b') \<Rightarrow>
             dimension_rule a a' \<and> dimension_rule b b'
             \<and> (t = CHR ''H''
                  \<and> sint w' = max (sint (width a')) (sint (width b'))
                  \<and> sint h' = sint (height a') + sint (height b')
                \<or> t = CHR ''V''
                  \<and> sint w' = sint (width a') + sint (width b')
                  \<and> sint h' = max (sint (height a')) (sint (height b')))
         | _ \<Rightarrow> False))"

lemma dimension_rule_Leaf:
  "dimension_rule (Node lb w h x y NUL None None) (Node lb w h x y NUL None None)"
  by simp

lemma dimension_rule_Cut:
  "dimension_rule (Node lb w h x y c (Some a) (Some b)) (Node lb w' h' x y c (Some a') (Some b')) \<longleftrightarrow>
     dimension_rule a a' \<and> dimension_rule b b'
     \<and> (c = CHR ''H''
          \<and> sint w' = max (sint (width a')) (sint (width b'))
          \<and> sint h' = sint (height a') + sint (height b')
        \<or> c = CHR ''V''
          \<and> sint w' = sint (width a') + sint (width b')
          \<and> sint h' = max (sint (height a')) (sint (height b')))"
  by simp

lemma computeDimensions_rule:
  "well_formed t \<Longrightarrow> dimensions_fit t \<Longrightarrow>
     \<exists>t'. computeDimensions (Some t) = Inr (Some t') \<and> dimension_rule t t'
       \<and> sint (width t') = exact_width t \<and> sint (height t') = exact_height t"
proof (induction t rule: well_formed_induct)
  case (Leaf lb w h x y)
  show ?case by simp
next
  case (Cut lb w h x y c a b)
  from Cut.hyps(1) have c: "c \<noteq> NUL" by auto
  from Cut.prems have fa: "dimensions_fit a" and fb: "dimensions_fit b" by simp_all
  from Cut.IH(1) [OF fa] obtain a' where
    a: "computeDimensions (Some a) = Inr (Some a')" "dimension_rule a a'"
       "sint (width a') = exact_width a" "sint (height a') = exact_height a"
    by blast
  from Cut.IH(2) [OF fb] obtain b' where
    b: "computeDimensions (Some b) = Inr (Some b')" "dimension_rule b b'"
       "sint (width b') = exact_width b" "sint (height b') = exact_height b"
    by blast
  show ?case
  proof (cases "c = CHR ''H''")
    case True
    from Cut.prems True
    have "int_range (exact_height a + exact_height b)" by simp
    then have s: "sint (height a' + height b') = exact_height a + exact_height b"
      by (subst sint_add_exact) (simp_all add: a b int_range_def)
    show ?thesis
      unfolding computeDimensions_Cut [OF Cut.hyps(1) a(1) b(1)]
      using True a(2-) b(2-) s by (simp add: sint_smax)
  next
    case False
    with Cut.hyps(1) have v: "c = CHR ''V''" by simp
    from Cut.prems v
    have "int_range (exact_width a + exact_width b)" by simp
    then have s: "sint (width a' + width b') = exact_width a + exact_width b"
      by (subst sint_add_exact) (simp_all add: a b int_range_def)
    show ?thesis
      unfolding computeDimensions_Cut [OF Cut.hyps(1) a(1) b(1)]
      using v a(2-) b(2-) s by (simp add: sint_smax)
  qed
qed

lemma example_dimensions_fit:
  "dimensions_fit (Node 0 0 0 0 0 (CHR ''H'') (Some (Node 1 2 3 0 0 NUL None None))
            (Some (Node 2 4 5 0 0 NUL None None)))"
  by (simp add: int_range_def)

text \<open>
  Claim C1, as amended. For every tree the builder returns in which the width and height
  of every subtree, computed over the integers, fit a 32-bit \<^verbatim>\<open>int\<close>, the dimension
  pass returns the same tree with these widths and heights written into its cuts: every
  horizontal cut has width = max(left.width, right.width) and height = left.height +
  right.height, every vertical cut has width = left.width + right.width and height =
  max(left.height, right.height), the sums and maxima being those of the integers, and
  every leaf keeps the width and height it was built with.
\<close>

theorem dimension_pass_rule:
  assumes "buildTree input = Inr root" and "dimensions_fit root"
  shows "\<exists>root'. computeDimensions (Some root) = Inr (Some root') \<and> dimension_rule root root'"
  using computeDimensions_rule [OF buildTree_well_formed [OF assms(1)] assms(2)] by blast

theorem dimension_pass_rule_witness:
  "buildTree (unlines [''1(2,3)'', ''2(4,5)'', ''H'']) =
     Inr (Node 0 0 0 0 0 (CHR ''H'') (Some (Node 1 2 3 0 0 NUL None None))
            (Some (Node 2 4 5 0 0 NUL None None)))
   \<and> dimensions_fit (Node 0 0 0 0 0 (CHR ''H'') (Some (Node 1 2 3 0 0 NUL None None))
            (Some (Node 2 4 5 0 0 NUL None None)))
   \<and> (\<exists>root'. computeDimensions (Some (Node 0 0 0 0 0 (CHR ''H'')
           (Some (Node 1 2 3 0 0 NUL None None)) (Some (Node 2 4 5 0 0 NUL None None))))
         = Inr (Some root')
       \<and> dimension_rule (Node 0 0 0 0 0 (CHR ''H'')
           (Some (Node 1 2 3 0 0 NUL None None)) (Some (Node 2 4 5 0 0 NUL None None))) root')"
  using dimension_pass_rule [OF example_tree example_dimensions_fit]
    example_tree example_dimensions_fit by blast

text \<open>
  Without the bound the claim fails. For the valid input \<^verbatim>\<open>1(2147483647,1)\<close>,
  \<^verbatim>\<open>2(2147483647,1)\<close>, \<^verbatim>\<open>V\<close> the pass stores the width \<open>-2\<close> in the cut, where
  left.width + right.width is 4294967294.
\<close>

theorem dimension_pass_rule_counterexample:
  "buildTree (unlines [''1(2147483647,1)'', ''2(2147483647,1)'', ''V'']) =
     Inr (Node 0 0 0 0 0 (CHR ''V'')
            (Some (Node 1 2147483647 1 0 0 NUL None None))
            (Some (Node 2 2147483647 1 0 0 NUL None None)))
   \<and> list_all valid_token (postorder (Node 0 0 0 0 0 (CHR ''V'')
            (Some (Node 1 2147483647 1 0 0 NUL None None))
            (Some (Node 2 2147483647 1 0 0 NUL None None))))
   \<and> computeDimensions (Some (Node 0 0 0 0 0 (CHR ''V'')
            (Some (Node 1 2147483647 1 0 0 NUL None None))
            (Some (Node 2 2147483647 1 0 0 NUL None None)))) =
     Inr (Some (Node 0 (- 2) 1 0 0 (CHR ''V'')
            (Some (Node 1 2147483647 1 0 0 NUL None None))
            (Some (Node 2 2147483647 1 0 0 NUL None None))))
   \<and> sint (width (Node 0 (- 2) 1 0 0 (CHR ''V'')
            (Some (Node 1 2147483647 1 0 0 NUL None None))
            (Some (Node 2 2147483647 1 0 0 NUL None None)))) = - 2
   \<and> sint (width (Node 1 2147483647 1 0 0 NUL None None))
       + sint (width (Node 2 2147483647 1 0 0 NUL None None)) = 4294967294
   \<and> \<not> dimension_rule
        (Node 0 0 0 0 0 (CHR ''V'')
            (Some (Node 1 2147483647 1 0 0 NUL None None))
            (Some (Node 2 2147483647 1 0 0 NUL None None)))
        (Node 0 (- 2) 1 0 0 (CHR ''V'')
            (Some (Node 1 2147483647 1 0 0 NUL None None))
            (Some (Node 2 2147483647 1 0 0 NUL None None)))"
  by code_simp

subsection \<open>The placement rule over the integers\<close>

text \<open>
  The rule of the specification for the coordinate pass, on a tree placed at the origin
  \<open>(X, Y)\<close>, with the sums taken over the integers: a leaf has \<open>(X, Y)\<close> as its
  coordinate; under a cut of type \<^verbatim>\<open>H\<close> the right subtree is placed at \<open>(X, Y)\<close> and
  the left subtree at \<open>(X, Y + right.height)\<close>; under a cut of type \<^verbatim>\<open>V\<close> the left
  subtree is placed at \<open>(X, Y)\<close> and the right subtree at \<open>(X + left.width, Y)\<close>.
\<close>

fun placement_rule :: "Node \<Rightarrow> int \<Rightarrow> int \<Rightarrow> bool" where
  "placement_rule (Node lb w h nx ny t l r) X Y =
     (case (l, r) of
        (None, None) \<Rightarrow> sint nx = X \<and> sint ny = Y
      | (Some a, Some b) \<Rightarrow>
          t = CHR ''H'' \<and> placement_rule b X Y \<and> placement_rule a X (Y + sint (height b))
          \<or> t = CHR ''V'' \<and> placement_rule a X Y \<and> placement_rule b (X + sint (width a)) Y
      | _ \<Rightarrow> False)"

text \<open>
  Every sum \<open>Y + right.height\<close> and \<open>X + left.width\<close> that the rule forms in a tree
  placed at \<open>(X, Y)\<close> fits an \<^verbatim>\<open>int\<close>.
\<close>

fun placement_fits :: "Node \<Rightarrow> int \<Rightarrow> int \<Rightarrow> bool" where
  "placement_fits (Node lb w h nx ny t l r) X Y =
     (case (l, r) of
        (Some a, Some b) \<Rightarrow>
          (if t = CHR ''H''
           then int_range (Y + sint (height b))
             \<and> placement_fits a X (Y + sint (height b)) \<and> placement_fits b X Y
           else int_range (X + sint (width a))
             \<and> placement_fits a X Y \<and> placement_fits b (X + sint (width a)) Y)
      | _ \<Rightarrow> True)"

text \<open>
  A tree with the coordinates of its leaves set to zero: what the coordinate pass may not
  change.
\<close>

fun clear_coordinates :: "Node \<Rightarrow> Node" where
  "clear_coordinates (Node lb w h x y t l r) =
     (if t = NUL then Node lb w h 0 0 t l r
      else Node lb w h x y t (map_option clear_coordinates l) (map_option clear_coordinates r))"

lemma computeCoordinates_rule:
  "well_formed t \<Longrightarrow> placement_fits t (sint x) (sint y) \<Longrightarrow>
     \<exists>t'. computeCoordinates (Some t) x y = Inr (Some t')
       \<and> placement_rule t' (sint x) (sint y) \<and> clear_coordinates t' = clear_coordinates t
       \<and> width t' = width t \<and> height t' = height t"
proof (induction t arbitrary: x y rule: well_formed_induct)
  case (Leaf lb w h nx ny)
  show ?case by simp
next
  case (Cut lb w h nx ny c a b)
  from Cut.hyps(1) have cn: "c \<noteq> NUL" by auto
  show ?case
  proof (cases "c = CHR ''H''")
    case True
    from Cut.prems True have r: "int_range (sint y + sint (height b))"
      and fa: "placement_fits a (sint x) (sint y + sint (height b))"
      and fb: "placement_fits b (sint x) (sint y)" by simp_all
    from r have y': "sint (y + height b) = sint y + sint (height b)"
      by (subst sint_add_exact) (simp_all add: int_range_def)
    from fa y' have fa': "placement_fits a (sint x) (sint (y + height b))" by simp
    from Cut.IH(1) [OF fa'] obtain a' where
      a: "computeCoordinates (Some a) x (y + height b) = Inr (Some a')"
         "placement_rule a' (sint x) (sint (y + height b))"
         "clear_coordinates a' = clear_coordinates a"
      by blast
    from Cut.IH(2) [OF fb] obtain b' where
      b: "computeCoordinates (Some b) x y = Inr (Some b')"
         "placement_rule b' (sint x) (sint y)"
         "clear_coordinates b' = clear_coordinates b" "height b' = height b"
      by blast
    show ?thesis
      unfolding True computeCoordinates_Cut_H [OF a(1) b(1)]
      using a(2,3) b(2,3,4) y' by simp
  next
    case False
    with Cut.hyps(1) have v: "c = CHR ''V''" by simp
    from Cut.prems v have r: "int_range (sint x + sint (width a))"
      and fa: "placement_fits a (sint x) (sint y)"
      and fb: "placement_fits b (sint x + sint (width a)) (sint y)" by simp_all
    from Cut.IH(1) [OF fa] obtain a' where
      a: "computeCoordinates (Some a) x y = Inr (Some a')"
         "placement_rule a' (sint x) (sint y)"
         "clear_coordinates a' = clear_coordinates a" "width a' = width a"
      by blast
    from r a(4) have x': "sint (x + width a') = sint x + sint (width a)"
      by (subst sint_add_exact) (simp_all add: int_range_def)
    from fb x' have fb': "placement_fits b (sint (x + width a')) (sint y)" by simp
    from Cut.IH(2) [OF fb'] obtain b' where
      b: "computeCoordinates (Some b) (x + width a') y = Inr (Some b')"
         "placement_rule b' (sint (x + width a')) (sint y)"
         "clear_coordinates b' = clear_coordinates b"
      by blast
    show ?thesis
      unfolding v computeCoordinates_Cut_V [OF a(1) b(1)]
      using a(2,3,4) b(2,3) x' by simp
  qed
qed

lemma example_placement_fits:
  "placement_fits (Node 0 4 8 0 0 (CHR ''H'') (Some (Node 1 2 3 0 0 NUL None None))
            (Some (Node 2 4 5 0 0 NUL None None))) (sint (0 :: cint)) (sint (0 :: cint))"
  by (simp add: int_range_def)

text \<open>
  Claim C2, as amended. On a tree the builder returned and the dimension pass has
  annotated, the coordinate pass called with the origin \<open>(x, y)\<close> places, for a
  horizontal cut, the right subtree at \<open>(x, y)\<close> and the left subtree at
  \<open>(x, y + right.height)\<close>, for a vertical cut the left subtree at \<open>(x, y)\<close> and the right
  subtree at \<open>(x + left.width, y)\<close>, and gives a leaf \<open>(x, y)\<close> as its coordinate, the sums
  being those of the integers, provided that every sum \<open>y + right.height\<close> and
  \<open>x + left.width\<close> formed by these rules in the tree fits a 32-bit \<^verbatim>\<open>int\<close>. The
  pass changes nothing but the coordinates of the leaves.
\<close>

theorem coordinate_pass_rule:
  assumes "buildTree input = Inr root0" and "computeDimensions (Some root0) = Inr (Some root1)"
    and "placement_fits root1 (sint x) (sint y)"
  shows "\<exists>root2. computeCoordinates (Some root1) x y = Inr (Some root2)
     \<and> placement_rule root2 (sint x) (sint y)
     \<and> clear_coordinates root2 = clear_coordinates root1"
proof -
  from computeDimensions_well_formed [OF buildTree_well_formed [OF assms(1)]] assms(2)
  have "well_formed root1" by auto
  from computeCoordinates_rule [OF this assms(3)] show ?thesis by blast
qed

theorem coordinate_pass_rule_witness:
  "buildTree (unlines [''1(2,3)'', ''2(4,5)'', ''H'']) =
     Inr (Node 0 0 0 0 0 (CHR ''H'') (Some (Node 1 2 3 0 0 NUL None None))
            (Some (Node 2 4 5 0 0 NUL None None)))
   \<and> computeDimensions (Some (Node 0 0 0 0 0 (CHR ''H'') (Some (Node 1 2 3 0 0 NUL None None))
            (Some (Node 2 4 5 0 0 NUL None None)))) =
      Inr (Some (Node 0 4 8 0 0 (CHR ''H'') (Some (Node 1 2 3 0 0 NUL None None))
            (Some (Node 2 4 5 0 0 NUL None None))))
   \<and> placement_fits (Node 0 4 8 0 0 (CHR ''H'') (Some (Node 1 2 3 0 0 NUL None None))
            (Some (Node 2 4 5 0 0 NUL None None))) (sint (0 :: cint)) (sint (0 :: cint))
   \<and> (\<exists>root2. computeCoordinates (Some (Node 0 4 8 0 0 (CHR ''H'')
            (Some (Node 1 2 3 0 0 NUL None None)) (Some (Node 2 4 5 0 0 NUL None None)))) 0 0
          = Inr (Some root2)
       \<and> placement_rule root2 (sint (0 :: cint)) (sint (0 :: cint))
       \<and> clear_coordinates root2 = clear_coordinates (Node 0 4 8 0 0 (CHR ''H'')
            (Some (Node 1 2 3 0 0 NUL None None)) (Some (Node 2 4 5 0 0 NUL None None))))"
  using coordinate_pass_rule [OF example_tree example_dimensions example_placement_fits]
    example_tree example_dimensions example_placement_fits by blast

text \<open>
  Without the bound the claim fails. For the valid input \<^verbatim>\<open>1(2147483647,1)\<close>,
  \<^verbatim>\<open>2(2147483647,1)\<close>, \<^verbatim>\<open>3(1,1)\<close>, \<^verbatim>\<open>V\<close>, \<^verbatim>\<open>V\<close> and the origin \<open>(0, 0)\<close>,
  leaf 2 is placed at \<open>x = 2147483647\<close> and has the width 2147483647, and leaf 3, its
  right neighbour under a vertical cut, is placed at \<open>x = -2\<close>, where x + left.width is
  4294967294.
\<close>

theorem coordinate_pass_rule_counterexample:
  "buildTree (unlines [''1(2147483647,1)'', ''2(2147483647,1)'', ''3(1,1)'', ''V'', ''V'']) =
     Inr (Node 0 0 0 0 0 (CHR ''V'')
            (Some (Node 1 2147483647 1 0 0 NUL None None))
            (Some (Node 0 0 0 0 0 (CHR ''V'')
               (Some (Node 2 2147483647 1 0 0 NUL None None))
               (Some (Node 3 1 1 0 0 NUL None None)))))
   \<and> list_all valid_token (postorder (Node 0 0 0 0 0 (CHR ''V'')
            (Some (Node 1 2147483647 1 0 0 NUL None None))
            (Some (Node 0 0 0 0 0 (CHR ''V'')
               (Some (Node 2 2147483647 1 0 0 NUL None None))
               (Some (Node 3 1 1 0 0 NUL None None))))))
   \<and> computeDimensions (Some (Node 0 0 0 0 0 (CHR ''V'')
            (Some (Node 1 2147483647 1 0 0 NUL None None))
            (Some (Node 0 0 0 0 0 (CHR ''V'')
               (Some (Node 2 2147483647 1 0 0 NUL None None))
               (Some (Node 3 1 1 0 0 NUL None None)))))) =
     Inr (Some (Node 0 (- 1) 1 0 0 (CHR ''V'')
            (Some (Node 1 2147483647 1 0 0 NUL None None))
            (Some (Node 0 (- 2147483648) 1 0 0 (CHR ''V'')
               (Some (Node 2 2147483647 1 0 0 NUL None None))
               (Some (Node 3 1 1 0 0 NUL None None))))))
   \<and> computeCoordinates (Some (Node 0 (- 1) 1 0 0 (CHR ''V'')
            (Some (Node 1 2147483647 1 0 0 NUL None None))
            (Some (Node 0 (- 2147483648) 1 0 0 (CHR ''V'')
               (Some (Node 2 2147483647 1 0 0 NUL None None))
               (Some (Node 3 1 1 0 0 NUL None None)))))) 0 0 =
     Inr (Some (Node 0 (- 1) 1 0 0 (CHR ''V'')
            (Some (Node 1 2147483647 1 0 0 NUL None None))
            (Some (Node 0 (- 2147483648) 1 0 0 (CHR ''V'')
               (Some (Node 2 2147483647 1 2147483647 0 NUL None None))
               (Some (Node 3 1 1 (- 2) 0 NUL None None))))))
   \<and> sint (xpos (Node 3 1 1 (- 2) 0 NUL None None)) = - 2
   \<and> sint (xpos (Node 2 2147483647 1 2147483647 0 NUL None None))
       + sint (width (Node 2 2147483647 1 2147483647 0 NUL None None)) = 4294967294
   \<and> \<not> placement_rule (Node 0 (- 1) 1 0 0 (CHR ''V'')
            (Some (Node 1 2147483647 1 0 0 NUL None None))
            (Some (Node 0 (- 2147483648) 1 0 0 (CHR ''V'')
               (Some (Node 2 2147483647 1 2147483647 0 NUL None None))
               (Some (Node 3 1 1 (- 2) 0 NUL None None))))) 0 0"
  by code_simp

subsection \<open>Token sequences of the specification\<close>

text \<open>
  The input of the specification, with integers that are not bounded: a token is a leaf
  descriptor \<^verbatim>\<open>label(width,height)\<close> or an operator character, and a binary tree is a
  leaf or a cut with an operator and two subtrees. \<open>spec_line\<close> is the line of a token
  and \<open>spec_text\<close> the text of the file for a sequence of tokens, one per line. A token is
  valid when its three integers are positive, or when it is \<^verbatim>\<open>H\<close> or \<^verbatim>\<open>V\<close>.
\<close>

datatype spec_token = Descriptor int int int | Operator char

datatype spec_tree = Leaf int int int | Cut char spec_tree spec_tree

fun spec_line :: "spec_token \<Rightarrow> string" where
  "spec_line (Descriptor lb w h) = show_int lb @ ''('' @ show_int w @ '','' @ show_int h @ '')''"
| "spec_line (Operator c) = [c]"

definition spec_text :: "spec_token list \<Rightarrow> string" where
  "spec_text ts = unlines (map spec_line ts)"

fun valid_spec_token :: "spec_token \<Rightarrow> bool" where
  "valid_spec_token (Descriptor lb w h) \<longleftrightarrow> 0 < lb \<and> 0 < w \<and> 0 < h"
| "valid_spec_token (Operator c) \<longleftrightarrow> c = CHR ''H'' \<or> c = CHR ''V''"

text \<open>The post-order traversal of a tree of the specification.\<close>

fun post_order :: "spec_tree \<Rightarrow> spec_token list" where
  "post_order (Leaf lb w h) = [Descriptor lb w h]"
| "post_order (Cut c a b) = post_order a @ post_order b @ [Operator c]"

text \<open>
  The three sizes the source fixes, as conditions on the input: the integers of a token
  fit a 32-bit \<^verbatim>\<open>int\<close>; the line of a token and its newline are at most 19 bytes,
  which is what one call of \<^verbatim>\<open>fgets\<close> reads into \<^verbatim>\<open>char line[20]\<close>; and
  \<open>pending\<close> is the largest number of subtrees that are on the stack at one time while
  the post-order encoding of a tree is processed.
\<close>

fun token_in_range :: "spec_token \<Rightarrow> bool" where
  "token_in_range (Descriptor lb w h) \<longleftrightarrow> int_range lb \<and> int_range w \<and> int_range h"
| "token_in_range (Operator c) \<longleftrightarrow> True"

definition line_fits :: "spec_token \<Rightarrow> bool" where
  "line_fits k \<longleftrightarrow> length (spec_line k) + 1 < LINE_SIZE"

fun pending :: "spec_tree \<Rightarrow> nat" where
  "pending (Leaf lb w h) = 1"
| "pending (Cut c a b) = max (pending a) (1 + pending b)"

text \<open>
  The post-order traversal of a tree of nodes, with the fields read as integers: a leaf
  gives its descriptor, a cut the tokens of its left subtree, those of its right subtree
  and then its operator.
\<close>

fun post_order_of :: "Node \<Rightarrow> spec_token list" where
  "post_order_of (Node lb w h x y t l r) =
     (if t = NUL then [Descriptor (sint lb) (sint w) (sint h)]
      else (case l of None \<Rightarrow> [] | Some a \<Rightarrow> post_order_of a)
         @ (case r of None \<Rightarrow> [] | Some b \<Rightarrow> post_order_of b)
         @ [Operator t])"

text \<open>
  The tree of nodes for a tree of the specification, as \<^verbatim>\<open>createNode\<close> and the
  operator branch of the builder lay it out.
\<close>

fun built_node :: "spec_tree \<Rightarrow> Node" where
  "built_node (Leaf lb w h) = createNode (word_of_int lb) (word_of_int w) (word_of_int h)"
| "built_node (Cut c a b) = Node 0 0 0 0 0 c (Some (built_node a)) (Some (built_node b))"

text \<open>
  The largest number of subtrees on the stack while the encodings of several trees, one
  after the other, are processed on a stack that holds \<open>n\<close> subtrees at the start.
\<close>

fun forest_pending :: "nat \<Rightarrow> spec_tree list \<Rightarrow> nat" where
  "forest_pending n [] = n"
| "forest_pending n (s # ss) = max (n + pending s) (forest_pending (Suc n) ss)"

text \<open>
  The tree of the specification with \<open>n + 1\<close> leaves \<^verbatim>\<open>1(1,1)\<close> and \<open>n\<close> horizontal
  cuts, each cut with a leaf as its left child.
\<close>

fun spec_comb :: "nat \<Rightarrow> spec_tree" where
  "spec_comb 0 = Leaf 1 1 1"
| "spec_comb (Suc n) = Cut (CHR ''H'') (Leaf 1 1 1) (spec_comb n)"

lemma sint_word_of_int_range: "int_range v \<Longrightarrow> sint (word_of_int v :: cint) = v"
  by (simp add: int_range_def sint_sbintrunc' signed_take_bit_int_eq_self)

lemma fmt_d_word_of_int: "int_range v \<Longrightarrow> fmt_d (word_of_int v) = show_int v"
  by (simp add: fmt_d_def sint_word_of_int_range)

lemma render_descriptor:
  "token_in_range (Descriptor lb w h) \<Longrightarrow>
     render (LeafTok (word_of_int lb) (word_of_int w) (word_of_int h)) = spec_line (Descriptor lb w h)"
  by (simp add: fmt_d_word_of_int)

lemma spec_text_Nil [simp]: "spec_text [] = []"
  by (simp add: spec_text_def unlines_def)

lemma spec_text_Cons [simp]: "spec_text (k # ts) = spec_line k @ NL # spec_text ts"
  by (simp add: spec_text_def unlines_def)

lemma spec_text_append [simp]: "spec_text (ts @ us) = spec_text ts @ spec_text us"
  by (simp add: spec_text_def unlines_def)

lemma built_node_bridge:
  assumes "list_all valid_spec_token (post_order s)" and "list_all token_in_range (post_order s)"
  shows "fresh (built_node s) \<and> encode (postorder (built_node s)) = spec_text (post_order s)
     \<and> post_order_of (built_node s) = post_order s \<and> stack_need (built_node s) = pending s"
  using assms
proof (induction s)
  case (Leaf lb w h)
  then show ?case
    by (simp add: createNode_def fmt_d_word_of_int sint_word_of_int_range)
next
  case (Cut c a b)
  then show ?case by auto
qed

lemma built_node_fits:
  assumes "list_all valid_spec_token (post_order s)" and "list_all token_in_range (post_order s)"
    and "list_all line_fits (post_order s)"
  shows "list_all fits_buffer (postorder (built_node s))"
  using assms
proof (induction s)
  case (Leaf lb w h)
  then show ?case
    by (simp add: createNode_def fits_buffer_def line_fits_def fmt_d_word_of_int)
next
  case (Cut c a b)
  then show ?case by (auto simp: fits_buffer_def LINE_SIZE_def)
qed

lemma spec_comb_built: "built_node (spec_comb n) = right_comb n"
  by (induction n) (simp_all add: createNode_def)

lemma spec_comb_post_order:
  "post_order (spec_comb n) =
     replicate (Suc n) (Descriptor 1 1 1) @ replicate n (Operator (CHR ''H''))"
  by (induction n) (simp_all add: replicate_append_same)

lemma spec_comb_pending: "pending (spec_comb n) = Suc n"
  by (induction n) simp_all

lemma descriptor_111_fits: "line_fits (Descriptor 1 1 1)"
  by code_simp

lemma operator_fits: "line_fits (Operator c)"
  by (simp add: line_fits_def LINE_SIZE_def)

lemma spec_comb_ok:
  "list_all valid_spec_token (post_order (spec_comb n))
   \<and> list_all token_in_range (post_order (spec_comb n))
   \<and> list_all line_fits (post_order (spec_comb n))"
  by (auto simp: spec_comb_post_order list_all_iff int_range_def descriptor_111_fits
      operator_fits)

definition tok_int :: "token \<Rightarrow> spec_token" where
  "tok_int k = (case k of LeafTok lb w h \<Rightarrow> Descriptor (sint lb) (sint w) (sint h)
                | OpTok c \<Rightarrow> Operator c)"

lemma sint_inject: "sint (a :: cint) = sint b \<Longrightarrow> a = b"
  by (rule signed_word_eqI)

lemma inj_tok_int: "inj tok_int"
  by (rule injI) (auto simp: tok_int_def split: token.splits dest: sint_inject)

lemma post_order_of_postorder: "post_order_of t = map tok_int (postorder t)"
  by (induction t) (auto simp: tok_int_def split: option.splits)

lemma post_order_of_unique:
  "fresh t \<Longrightarrow> fresh t' \<Longrightarrow> post_order_of t' = post_order_of t \<Longrightarrow> t' = t"
  by (rule postorder_unique) (simp_all add: post_order_of_postorder inj_map_eq_map [OF inj_tok_int])

lemma build_spec_tree:
  assumes "list_all valid_spec_token (post_order s)" and "list_all token_in_range (post_order s)"
    and "list_all line_fits (post_order s)" and "length st + pending s \<le> STACK_SIZE"
  shows "buildLoop (spec_text (post_order s) @ rest) st = buildLoop rest (built_node s # st)"
proof -
  note b = built_node_bridge [OF assms(1,2)]
  have "buildLoop (encode (postorder (built_node s)) @ rest) st = buildLoop rest (built_node s # st)"
    by (rule build_postorder [OF fresh_well_formed])
       (use b built_node_fits [OF assms(1,2,3)] assms(4) in simp_all)
  with b show ?thesis by simp
qed

lemma build_spec_forest:
  assumes "list_all valid_spec_token (concat (map post_order ss))"
    and "list_all token_in_range (concat (map post_order ss))"
    and "list_all line_fits (concat (map post_order ss))"
    and "forest_pending (length st) ss \<le> STACK_SIZE"
  shows "buildLoop (spec_text (concat (map post_order ss)) @ rest) st =
     buildLoop rest (rev (map built_node ss) @ st)"
  using assms
proof (induction ss arbitrary: st)
  case Nil
  show ?case by simp
next
  case (Cons s ss)
  from Cons.prems have s: "list_all valid_spec_token (post_order s)"
    "list_all token_in_range (post_order s)" "list_all line_fits (post_order s)"
    and ss: "list_all valid_spec_token (concat (map post_order ss))"
    "list_all token_in_range (concat (map post_order ss))"
    "list_all line_fits (concat (map post_order ss))"
    and n: "length st + pending s \<le> STACK_SIZE"
    and n': "forest_pending (length (built_node s # st)) ss \<le> STACK_SIZE"
    by simp_all
  have "buildLoop (spec_text (concat (map post_order (s # ss))) @ rest) st =
        buildLoop (spec_text (post_order s) @ (spec_text (concat (map post_order ss)) @ rest)) st"
    by simp
  also have "\<dots> = buildLoop (spec_text (concat (map post_order ss)) @ rest) (built_node s # st)"
    by (rule build_spec_tree [OF s n])
  also have "\<dots> = buildLoop rest (rev (map built_node ss) @ built_node s # st)"
    by (rule Cons.IH [OF ss n'])
  finally show ?case by simp
qed

lemma example_spec_tree:
  "list_all valid_spec_token (post_order (Cut (CHR ''H'') (Leaf 1 2 3) (Leaf 2 4 5)))"
  "list_all token_in_range (post_order (Cut (CHR ''H'') (Leaf 1 2 3) (Leaf 2 4 5)))"
  "list_all line_fits (post_order (Cut (CHR ''H'') (Leaf 1 2 3) (Leaf 2 4 5)))"
  "pending (Cut (CHR ''H'') (Leaf 1 2 3) (Leaf 2 4 5)) \<le> STACK_SIZE"
  by code_simp+

text \<open>
  Claim C3, as amended. For every valid token sequence that is the post-order encoding of
  a binary tree, in which every integer fits a 32-bit \<^verbatim>\<open>int\<close>, every token line with
  its newline fits the 20-byte line buffer (at most 19 bytes) and never more than 1000
  subtrees are pending, the builder returns the tree of that encoding, and it is the only
  tree (as the builder leaves trees) whose post-order traversal is the input sequence;
  when an operator line is processed with the subtrees \<open>b\<close> (pushed last) and \<open>a\<close>
  (pushed before it) on top of a stack that is within its 1000 entries, the new cut has
  \<open>a\<close> as its left child and \<open>b\<close> as its right child.
\<close>

theorem builder_postorder:
  assumes "list_all valid_spec_token (post_order s)" and "list_all token_in_range (post_order s)"
    and "list_all line_fits (post_order s)" and "pending s \<le> STACK_SIZE"
  shows "buildTree (spec_text (post_order s)) = Inr (built_node s)
     \<and> fresh (built_node s) \<and> post_order_of (built_node s) = post_order s
     \<and> (\<forall>root. fresh root \<and> post_order_of root = post_order s \<longrightarrow> root = built_node s)
     \<and> (\<forall>c a b st rest.
           (c = CHR ''H'' \<or> c = CHR ''V'') \<and> length (b # a # st) \<le> STACK_SIZE \<longrightarrow>
           buildLoop (c # NL # rest) (b # a # st) =
             buildLoop rest (Node 0 0 0 0 0 c (Some a) (Some b) # st))"
proof (intro conjI allI impI)
  have "buildLoop (spec_text (post_order s) @ []) [] = buildLoop [] [built_node s]"
    by (rule build_spec_tree [OF assms(1,2,3)]) (use assms(4) in simp)
  then show "buildTree (spec_text (post_order s)) = Inr (built_node s)"
    by (simp add: buildTree_def buildLoop_end)
next
  show "fresh (built_node s)" using built_node_bridge [OF assms(1,2)] by simp
next
  show "post_order_of (built_node s) = post_order s"
    using built_node_bridge [OF assms(1,2)] by simp
next
  fix root assume "fresh root \<and> post_order_of root = post_order s"
  then show "root = built_node s"
    using built_node_bridge [OF assms(1,2)] post_order_of_unique [of "built_node s" root] by simp
next
  fix c :: char and a b :: Node and st :: "Node list" and rest :: string
  assume "(c = CHR ''H'' \<or> c = CHR ''V'') \<and> length (b # a # st) \<le> STACK_SIZE"
  then show "buildLoop (c # NL # rest) (b # a # st) =
      buildLoop rest (Node 0 0 0 0 0 c (Some a) (Some b) # st)"
    by (simp add: build_op)
qed

theorem builder_postorder_witness:
  "list_all valid_spec_token (post_order (Cut (CHR ''H'') (Leaf 1 2 3) (Leaf 2 4 5)))
   \<and> list_all token_in_range (post_order (Cut (CHR ''H'') (Leaf 1 2 3) (Leaf 2 4 5)))
   \<and> list_all line_fits (post_order (Cut (CHR ''H'') (Leaf 1 2 3) (Leaf 2 4 5)))
   \<and> pending (Cut (CHR ''H'') (Leaf 1 2 3) (Leaf 2 4 5)) \<le> STACK_SIZE
   \<and> buildTree (spec_text (post_order (Cut (CHR ''H'') (Leaf 1 2 3) (Leaf 2 4 5)))) =
       Inr (built_node (Cut (CHR ''H'') (Leaf 1 2 3) (Leaf 2 4 5)))
   \<and> built_node (Cut (CHR ''H'') (Leaf 1 2 3) (Leaf 2 4 5)) =
       Node 0 0 0 0 0 (CHR ''H'') (Some (Node 1 2 3 0 0 NUL None None))
         (Some (Node 2 4 5 0 0 NUL None None))
   \<and> buildLoop (CHR ''H'' # NL # [])
         [Node 2 4 5 0 0 NUL None None, Node 1 2 3 0 0 NUL None None] =
       buildLoop [] [Node 0 0 0 0 0 (CHR ''H'') (Some (Node 1 2 3 0 0 NUL None None))
         (Some (Node 2 4 5 0 0 NUL None None))]"
proof -
  note w = builder_postorder [OF example_spec_tree]
  have l: "length [Node 2 4 5 0 0 NUL None None, Node 1 2 3 0 0 NUL None None] \<le> STACK_SIZE"
    by (simp add: STACK_SIZE_def)
  from w have 1: "buildTree (spec_text (post_order (Cut (CHR ''H'') (Leaf 1 2 3) (Leaf 2 4 5)))) =
       Inr (built_node (Cut (CHR ''H'') (Leaf 1 2 3) (Leaf 2 4 5)))"
    by blast
  from w l have 2: "buildLoop (CHR ''H'' # NL # [])
         [Node 2 4 5 0 0 NUL None None, Node 1 2 3 0 0 NUL None None] =
       buildLoop [] [Node 0 0 0 0 0 (CHR ''H'') (Some (Node 1 2 3 0 0 NUL None None))
         (Some (Node 2 4 5 0 0 NUL None None))]"
    by blast
  have 3: "built_node (Cut (CHR ''H'') (Leaf 1 2 3) (Leaf 2 4 5)) =
       Node 0 0 0 0 0 (CHR ''H'') (Some (Node 1 2 3 0 0 NUL None None))
         (Some (Node 2 4 5 0 0 NUL None None))"
    by (simp add: createNode_def)
  from 1 2 3 example_spec_tree show ?thesis by (simp only: simp_thms)
qed

text \<open>
  The claim as it is written fails on three valid token sequences. The line of the leaf
  \<^verbatim>\<open>1000000(1000000,1000000)\<close> is longer than the buffer: \<^verbatim>\<open>fgets\<close> returns
  its first 19 bytes, from which a leaf of height 100 is pushed, and the rest of the line
  is read as a line of its own, on which \<^verbatim>\<open>sscanf\<close> assigns only the label. The
  encoding of \<open>spec_comb 1000\<close>, 1001 leaves followed by 1000 operators, has 1001 subtrees
  pending, and the last of them is written to \<^verbatim>\<open>stack[1000]\<close>. The width of the leaf
  \<^verbatim>\<open>1(2147483648,1)\<close> does not fit the \<^verbatim>\<open>int\<close> that \<^verbatim>\<open>sscanf\<close> stores it in.
\<close>

theorem builder_postorder_counterexample:
  "list_all valid_spec_token (post_order (Leaf 1000000 1000000 1000000))
   \<and> spec_text (post_order (Leaf 1000000 1000000 1000000)) = ''1000000(1000000,1000000)'' @ [NL]
   \<and> fgets LINE_SIZE (''1000000(1000000,1000000)'' @ [NL]) =
       Some (''1000000(1000000,100'', ''0000)'' @ [NL])
   \<and> loop_body ''1000000(1000000,100'' [] = Inr [Node 1000000 1000000 100 0 0 NUL None None]
   \<and> buildTree (spec_text (post_order (Leaf 1000000 1000000 1000000))) = Inl Uninitialised
   \<and> list_all valid_spec_token (post_order (spec_comb 1000))
   \<and> buildTree (spec_text (post_order (spec_comb 1000))) = Inl OutOfBounds
   \<and> list_all valid_spec_token (post_order (Leaf 1 2147483648 1))
   \<and> spec_text (post_order (Leaf 1 2147483648 1)) = ''1(2147483648,1)'' @ [NL]
   \<and> buildTree (spec_text (post_order (Leaf 1 2147483648 1))) = Inl Unrepresentable"
proof -
  have "list_all valid_spec_token (post_order (Leaf 1000000 1000000 1000000))
   \<and> spec_text (post_order (Leaf 1000000 1000000 1000000)) = ''1000000(1000000,1000000)'' @ [NL]
   \<and> fgets LINE_SIZE (''1000000(1000000,1000000)'' @ [NL]) =
       Some (''1000000(1000000,100'', ''0000)'' @ [NL])
   \<and> loop_body ''1000000(1000000,100'' [] = Inr [Node 1000000 1000000 100 0 0 NUL None None]
   \<and> buildTree (spec_text (post_order (Leaf 1000000 1000000 1000000))) = Inl Uninitialised"
    by code_simp
  moreover have "list_all valid_spec_token (post_order (Leaf 1 2147483648 1))
   \<and> spec_text (post_order (Leaf 1 2147483648 1)) = ''1(2147483648,1)'' @ [NL]
   \<and> buildTree (spec_text (post_order (Leaf 1 2147483648 1))) = Inl Unrepresentable"
    by code_simp
  moreover have "buildTree (spec_text (post_order (spec_comb 1000))) = Inl OutOfBounds"
  proof -
    have "encode (postorder (built_node (spec_comb 1000))) = spec_text (post_order (spec_comb 1000))"
      using built_node_bridge [of "spec_comb 1000"] spec_comb_ok [of 1000] by simp
    moreover have "buildTree (encode (postorder (right_comb 1000))) = Inl OutOfBounds"
      by (rule buildTree_overflow [OF right_comb_fresh right_comb_fits])
         (simp add: right_comb_need STACK_SIZE_def)
    ultimately show ?thesis by (simp add: spec_comb_built)
  qed
  ultimately show ?thesis using spec_comb_ok [of 1000] by blast
qed

text \<open>
  Claim C5, as amended. When the input holds the post-order encodings of one or more
  trees one after the other (valid tokens whose integers fit a 32-bit \<^verbatim>\<open>int\<close>, every
  line fitting the line buffer, at most 1000 subtrees pending at any time), the builder
  does not fail: it returns the tree encoded last, although more than one subtree remains
  on the stack when there are several trees.
\<close>

theorem builder_returns_last_subtree:
  assumes "ss \<noteq> []"
    and "list_all valid_spec_token (concat (map post_order ss))"
    and "list_all token_in_range (concat (map post_order ss))"
    and "list_all line_fits (concat (map post_order ss))"
    and "forest_pending 0 ss \<le> STACK_SIZE"
  shows "buildTree (spec_text (concat (map post_order ss))) = Inr (built_node (last ss))"
proof -
  have "buildLoop (spec_text (concat (map post_order ss)) @ []) [] =
      buildLoop [] (rev (map built_node ss) @ [])"
    by (rule build_spec_forest [OF assms(2,3,4)]) (use assms(5) in simp)
  moreover from assms(1) obtain t us where "rev (map built_node ss) = t # us"
    "t = built_node (last ss)"
    by (cases ss rule: rev_cases) auto
  ultimately show ?thesis by (simp add: buildTree_def buildLoop_end)
qed

theorem builder_returns_last_subtree_witness:
  "[Leaf 1 2 3, Leaf 2 4 5] \<noteq> []
   \<and> list_all valid_spec_token (concat (map post_order [Leaf 1 2 3, Leaf 2 4 5]))
   \<and> list_all token_in_range (concat (map post_order [Leaf 1 2 3, Leaf 2 4 5]))
   \<and> list_all line_fits (concat (map post_order [Leaf 1 2 3, Leaf 2 4 5]))
   \<and> forest_pending 0 [Leaf 1 2 3, Leaf 2 4 5] \<le> STACK_SIZE
   \<and> spec_text (concat (map post_order [Leaf 1 2 3, Leaf 2 4 5])) = unlines [''1(2,3)'', ''2(4,5)'']
   \<and> built_node (last [Leaf 1 2 3, Leaf 2 4 5]) = Node 2 4 5 0 0 NUL None None
   \<and> buildTree (spec_text (concat (map post_order [Leaf 1 2 3, Leaf 2 4 5]))) =
       Inr (built_node (last [Leaf 1 2 3, Leaf 2 4 5]))"
proof -
  have 1: "[Leaf 1 2 3, Leaf 2 4 5] \<noteq> []" by simp
  have 2: "list_all valid_spec_token (concat (map post_order [Leaf 1 2 3, Leaf 2 4 5]))"
    by simp
  have 3: "list_all token_in_range (concat (map post_order [Leaf 1 2 3, Leaf 2 4 5]))"
    by (simp add: int_range_def)
  have 4: "list_all line_fits (concat (map post_order [Leaf 1 2 3, Leaf 2 4 5]))"
    by code_simp
  have 5: "forest_pending 0 [Leaf 1 2 3, Leaf 2 4 5] \<le> STACK_SIZE"
    by (simp add: STACK_SIZE_def)
  have 6: "spec_text (concat (map post_order [Leaf 1 2 3, Leaf 2 4 5])) =
      unlines [''1(2,3)'', ''2(4,5)'']"
    by code_simp
  have 7: "built_node (last [Leaf 1 2 3, Leaf 2 4 5]) = Node 2 4 5 0 0 NUL None None"
    by (simp add: createNode_def)
  from builder_returns_last_subtree [OF 1 2 3 4 5] 1 2 3 4 5 6 7
  show ?thesis by (simp only: simp_thms)
qed

text \<open>
  Two leaves and no operator: two subtrees remain after the last line, and the builder
  returns the one pushed last.
\<close>

theorem builder_two_subtrees_counterexample:
  "buildTree (unlines [''1(2,3)'', ''2(4,5)'']) = Inr (Node 2 4 5 0 0 NUL None None)"
  by code_simp

lemma spec_line_chars:
  "c \<in> set (spec_line (Descriptor lb w h)) \<Longrightarrow> c \<noteq> NUL \<and> c \<noteq> NL"
  by (auto dest!: show_int_chars dest: isdigit_not_space)

lemma loop_body_descriptor:
  assumes "token_in_range (Descriptor lb w h)"
  shows "loop_body (spec_line (Descriptor lb w h) @ junk) st =
     push (createNode (word_of_int lb) (word_of_int w) (word_of_int h)) st"
  using loop_body_leaf [of "word_of_int lb" "word_of_int w" "word_of_int h" junk st]
  by (simp only: render_descriptor [OF assms])

lemma loop_body_operator_junk:
  "c = CHR ''H'' \<or> c = CHR ''V'' \<Longrightarrow> loop_body (c # junk) st = loop_body [c] st"
  by (auto simp: loop_body_def)

lemma build_operator_junk:
  assumes "c = CHR ''H'' \<or> c = CHR ''V''" and "NL \<notin> set junk"
    and "length (c # junk) + 1 < LINE_SIZE"
  shows "buildLoop ((c # junk) @ NL # rest) st = buildLoop ([c] @ NL # rest) st"
proof -
  have n: "NL \<notin> set (c # junk)" "NL \<notin> set [c]" using assms(1,2) by auto
  have l: "length [c] + 1 < LINE_SIZE" by (simp add: LINE_SIZE_def)
  have "loop_body ((c # junk) @ [NL]) st = loop_body ([c] @ [NL]) st"
    using loop_body_operator_junk [OF assms(1), of "junk @ [NL]" st]
      loop_body_operator_junk [OF assms(1), of "[NL]" st] by simp
  then show ?thesis
    by (simp only: buildLoop_line [OF n(1) assms(3)] buildLoop_line [OF n(2) l])
qed

lemma build_descriptor_junk:
  assumes "token_in_range (Descriptor lb w h)" and "NL \<notin> set junk"
    and "length (spec_line (Descriptor lb w h) @ junk) + 1 < LINE_SIZE"
  shows "buildLoop ((spec_line (Descriptor lb w h) @ junk) @ NL # rest) st =
     (if length st < STACK_SIZE
      then buildLoop rest (createNode (word_of_int lb) (word_of_int w) (word_of_int h) # st)
      else Inl OutOfBounds)"
proof -
  have n: "NL \<notin> set (spec_line (Descriptor lb w h) @ junk)"
    using assms(2) spec_line_chars [of NL lb w h] by auto
  have "loop_body ((spec_line (Descriptor lb w h) @ junk) @ [NL]) st =
      push (createNode (word_of_int lb) (word_of_int w) (word_of_int h)) st"
    using loop_body_descriptor [OF assms(1), of "junk @ [NL]" st] by simp
  then show ?thesis
    by (simp only: buildLoop_line [OF n assms(3)]) (simp add: push_def)
qed

text \<open>
  Claim C6, as amended. The builder does not reject a line that is neither an operator
  token nor a leaf descriptor of three positive integers. An input line of at most 18
  bytes before its newline (so that it fits the 20-byte line buffer) whose first character
  is \<^verbatim>\<open>H\<close> or \<^verbatim>\<open>V\<close> is processed as the line of that operator alone, whatever
  follows the character; and such a line that begins with a leaf descriptor
  \<^verbatim>\<open>label(width,height)\<close> whose three integers fit a 32-bit \<^verbatim>\<open>int\<close> is processed
  as that leaf (the leaf is pushed if the stack has room), whether the integers are
  positive or not and whatever follows the descriptor.
\<close>

theorem malformed_lines_accepted:
  assumes "NL \<notin> set junk"
  shows "((c = CHR ''H'' \<or> c = CHR ''V'') \<and> length (c # junk) + 1 < LINE_SIZE \<longrightarrow>
            buildLoop ((c # junk) @ NL # rest) st = buildLoop ([c] @ NL # rest) st)
     \<and> (token_in_range (Descriptor lb w h)
          \<and> length (spec_line (Descriptor lb w h) @ junk) + 1 < LINE_SIZE \<longrightarrow>
            buildLoop ((spec_line (Descriptor lb w h) @ junk) @ NL # rest) st =
              (if length st < STACK_SIZE
               then buildLoop rest
                 (createNode (word_of_int lb) (word_of_int w) (word_of_int h) # st)
               else Inl OutOfBounds))"
proof (intro conjI impI)
  assume "(c = CHR ''H'' \<or> c = CHR ''V'') \<and> length (c # junk) + 1 < LINE_SIZE"
  then show "buildLoop ((c # junk) @ NL # rest) st = buildLoop ([c] @ NL # rest) st"
    using build_operator_junk [of c junk rest st] assms by simp
next
  assume "token_in_range (Descriptor lb w h)
    \<and> length (spec_line (Descriptor lb w h) @ junk) + 1 < LINE_SIZE"
  then have r: "token_in_range (Descriptor lb w h)"
    and l: "length (spec_line (Descriptor lb w h) @ junk) + 1 < LINE_SIZE" by simp_all
  show "buildLoop ((spec_line (Descriptor lb w h) @ junk) @ NL # rest) st =
      (if length st < STACK_SIZE
       then buildLoop rest (createNode (word_of_int lb) (word_of_int w) (word_of_int h) # st)
       else Inl OutOfBounds)"
    by (rule build_descriptor_junk [OF r assms l])
qed

theorem malformed_lines_accepted_witness:
  "NL \<notin> set ''ello''
   \<and> length (CHR ''H'' # ''ello'') + 1 < LINE_SIZE
   \<and> buildLoop ((CHR ''H'' # ''ello'') @ NL # [])
        [Node 2 4 5 0 0 NUL None None, Node 1 2 3 0 0 NUL None None] =
      buildLoop ([CHR ''H''] @ NL # [])
        [Node 2 4 5 0 0 NUL None None, Node 1 2 3 0 0 NUL None None]
   \<and> token_in_range (Descriptor 1 (- 2) 0)
   \<and> spec_line (Descriptor 1 (- 2) 0) @ ''ello'' = ''1(-2,0)ello''
   \<and> length (spec_line (Descriptor 1 (- 2) 0) @ ''ello'') + 1 < LINE_SIZE
   \<and> length ([Node 2 4 5 0 0 NUL None None, Node 1 2 3 0 0 NUL None None]) < STACK_SIZE
   \<and> buildLoop ((spec_line (Descriptor 1 (- 2) 0) @ ''ello'') @ NL # [])
        [Node 2 4 5 0 0 NUL None None, Node 1 2 3 0 0 NUL None None] =
      buildLoop []
        [createNode (word_of_int 1) (word_of_int (- 2)) (word_of_int 0),
         Node 2 4 5 0 0 NUL None None, Node 1 2 3 0 0 NUL None None]"
proof -
  have 1: "NL \<notin> set ''ello''" by simp
  have 2: "length (CHR ''H'' # ''ello'') + 1 < LINE_SIZE" by (simp add: LINE_SIZE_def)
  have 3: "token_in_range (Descriptor 1 (- 2) 0)" by (simp add: int_range_def)
  have 4: "spec_line (Descriptor 1 (- 2) 0) @ ''ello'' = ''1(-2,0)ello''" by code_simp
  have 5: "length (spec_line (Descriptor 1 (- 2) 0) @ ''ello'') + 1 < LINE_SIZE"
    by (simp only: 4) (simp add: LINE_SIZE_def)
  have 6: "length ([Node 2 4 5 0 0 NUL None None, Node 1 2 3 0 0 NUL None None]) < STACK_SIZE"
    by (simp add: STACK_SIZE_def)
  note w = malformed_lines_accepted [OF 1, of "CHR ''H''" "[]"
      "[Node 2 4 5 0 0 NUL None None, Node 1 2 3 0 0 NUL None None]" 1 "- 2" 0]
  from w 2 have 7: "buildLoop ((CHR ''H'' # ''ello'') @ NL # [])
        [Node 2 4 5 0 0 NUL None None, Node 1 2 3 0 0 NUL None None] =
      buildLoop ([CHR ''H''] @ NL # [])
        [Node 2 4 5 0 0 NUL None None, Node 1 2 3 0 0 NUL None None]"
    by blast
  from w 3 5 6 have 8: "buildLoop ((spec_line (Descriptor 1 (- 2) 0) @ ''ello'') @ NL # [])
        [Node 2 4 5 0 0 NUL None None, Node 1 2 3 0 0 NUL None None] =
      buildLoop []
        [createNode (word_of_int 1) (word_of_int (- 2)) (word_of_int 0),
         Node 2 4 5 0 0 NUL None None, Node 1 2 3 0 0 NUL None None]"
    by (simp only: if_True simp_thms)
  from 1 2 3 4 5 6 7 8 show ?thesis by blast
qed

text \<open>
  The line \<^verbatim>\<open>Hello\<close> is neither an operator token nor a leaf descriptor, and is
  processed as the operator \<^verbatim>\<open>H\<close>; the line \<^verbatim>\<open>1(-2,0)xyz\<close> is not a
  descriptor of three positive integers, and is processed as a leaf of width \<open>-2\<close> and
  height \<open>0\<close>.
\<close>

theorem parse_error_counterexample:
  "buildTree (unlines [''1(2,3)'', ''2(4,5)'', ''Hello'']) =
     Inr (Node 0 0 0 0 0 (CHR ''H'') (Some (Node 1 2 3 0 0 NUL None None))
            (Some (Node 2 4 5 0 0 NUL None None)))
   \<and> buildTree (unlines [''1(-2,0)xyz'']) = Inr (Node 1 (- 2) 0 0 0 NUL None None)"
  by code_simp

end
